theory Spec2Isabelle
  imports Complex_Main "HOL-Library.Word"
begin

text \<open>
  The incremental quasi-Newton optimizer of mlpack,
  \<^verbatim>\<open>src/mlpack/core/optimizers/iqn/iqn_impl.hpp\<close>: a shallow embedding of
  \<^verbatim>\<open>IQN::Optimize\<close> with the matrices of Armadillo over exact reals, its exceptions as
  errors, the two shared buffers in an explicit store, and the objective, the random
  generator and the matrix inverse as parameters.
\<close>

section \<open>Armadillo matrices\<close>

text \<open>
  An \<^verbatim>\<open>arma::mat\<close> is a header (\<^verbatim>\<open>n_rows\<close>, \<^verbatim>\<open>n_cols\<close>) over a buffer
  \<^verbatim>\<open>mem\<close> that stores the elements column by column: element \<open>(i, j)\<close> lives at
  \<open>mem[i + j * n_rows]\<close>. Elements are modelled as exact reals.
\<close>

record amat =
  n_rows :: nat
  n_cols :: nat
  mem :: "real list"

definition n_elem :: "amat \<Rightarrow> nat" where
  "n_elem M = n_rows M * n_cols M"

definition elem :: "amat \<Rightarrow> nat \<Rightarrow> nat \<Rightarrow> real" where
  "elem M i j = mem M ! (i + j * n_rows M)"

definition same_size :: "amat \<Rightarrow> amat \<Rightarrow> bool" where
  "same_size A X \<longleftrightarrow> n_rows A = n_rows X \<and> n_cols A = n_cols X"

text \<open>The matrix with \<open>r\<close> rows and \<open>c\<close> columns whose element \<open>(i, j)\<close> is \<open>f i j\<close>.\<close>

definition mk :: "nat \<Rightarrow> nat \<Rightarrow> (nat \<Rightarrow> nat \<Rightarrow> real) \<Rightarrow> amat" where
  "mk r c f = \<lparr>n_rows = r, n_cols = c, mem = map (\<lambda>k. f (k mod r) (k div r)) [0..<r * c]\<rparr>"

text \<open>\<^verbatim>\<open>arma::zeros(r, c)\<close> and \<^verbatim>\<open>arma::eye(r, c)\<close>.\<close>

definition zeros :: "nat \<Rightarrow> nat \<Rightarrow> amat" where
  "zeros r c = mk r c (\<lambda>i j. 0)"

definition eye :: "nat \<Rightarrow> nat \<Rightarrow> amat" where
  "eye r c = mk r c (\<lambda>i j. if i = j then 1 else 0)"

text \<open>
  \<^verbatim>\<open>arma::randn(r, c)\<close> fills the buffer of a fresh \<open>r \<times> c\<close> matrix with the samples
  the generator hands out; the samples of one call are the parameter \<open>samples\<close>.
\<close>

definition randn :: "(nat \<Rightarrow> real) \<Rightarrow> nat \<Rightarrow> nat \<Rightarrow> amat" where
  "randn samples r c = \<lparr>n_rows = r, n_cols = c, mem = map samples [0..<r * c]\<rparr>"

text \<open>
  The element-wise operators \<^verbatim>\<open>A + X\<close>, \<^verbatim>\<open>A - X\<close>, \<^verbatim>\<open>a * A\<close>, \<^verbatim>\<open>A / a\<close>.
  Armadillo throws when the two operands of \<^verbatim>\<open>+\<close> or \<^verbatim>\<open>-\<close> differ in size; the
  callers below test \<open>same_size\<close> wherever an operand comes from outside.
\<close>

definition m_plus :: "amat \<Rightarrow> amat \<Rightarrow> amat" where
  "m_plus A X = mk (n_rows A) (n_cols A) (\<lambda>i j. elem A i j + elem X i j)"

definition m_minus :: "amat \<Rightarrow> amat \<Rightarrow> amat" where
  "m_minus A X = mk (n_rows A) (n_cols A) (\<lambda>i j. elem A i j - elem X i j)"

definition s_times :: "real \<Rightarrow> amat \<Rightarrow> amat" where
  "s_times a A = mk (n_rows A) (n_cols A) (\<lambda>i j. a * elem A i j)"

definition m_div :: "amat \<Rightarrow> real \<Rightarrow> amat" where
  "m_div A a = mk (n_rows A) (n_cols A) (\<lambda>i j. elem A i j / a)"

text \<open>The matrix product \<^verbatim>\<open>A * X\<close> and the transpose \<^verbatim>\<open>A.t()\<close>.\<close>

definition m_times :: "amat \<Rightarrow> amat \<Rightarrow> amat" where
  "m_times A X =
     mk (n_rows A) (n_cols X) (\<lambda>i j. sum_list (map (\<lambda>k. elem A i k * elem X k j) [0..<n_cols A]))"

definition m_t :: "amat \<Rightarrow> amat" where
  "m_t A = mk (n_cols A) (n_rows A) (\<lambda>i j. elem A j i)"

text \<open>
  \<^verbatim>\<open>arma::vectorise(A)\<close> stacks the columns of \<open>A\<close>: with column-major storage the
  buffer is the same and only the header changes. \<^verbatim>\<open>arma::as_scalar\<close> reads the only
  element of a \<open>1 \<times> 1\<close> matrix, \<^verbatim>\<open>arma::norm\<close> is the Euclidean norm of a vector.
\<close>

definition vectorise :: "amat \<Rightarrow> amat" where
  "vectorise A = \<lparr>n_rows = n_elem A, n_cols = 1, mem = mem A\<rparr>"

definition as_scalar :: "amat \<Rightarrow> real" where
  "as_scalar A = elem A 0 0"

definition norm2 :: "amat \<Rightarrow> real" where
  "norm2 A = sqrt (sum_list (map (\<lambda>x. x * x) (mem A)))"

definition symmetric :: "amat \<Rightarrow> bool" where
  "symmetric A \<longleftrightarrow> n_rows A = n_cols A \<and> m_t A = A"

section \<open>IEEE doubles that may be non-finite\<close>

text \<open>
  The objective values returned by \<^verbatim>\<open>Evaluate\<close> are \<^verbatim>\<open>double\<close>s that the code
  tests with \<^verbatim>\<open>std::isnan\<close> and \<^verbatim>\<open>std::isinf\<close>. A finite double is modelled by the
  real it denotes (no rounding, no overflow); the three other kinds are kept apart.
\<close>

datatype double = Fin real | PInf | NInf | NaN

fun isnan :: "double \<Rightarrow> bool" where
  "isnan NaN = True"
| "isnan _ = False"

fun isinf :: "double \<Rightarrow> bool" where
  "isinf PInf = True"
| "isinf NInf = True"
| "isinf _ = False"

text \<open>\<^verbatim>\<open>a + b\<close> on doubles.\<close>

fun d_plus :: "double \<Rightarrow> double \<Rightarrow> double" where
  "d_plus NaN _ = NaN"
| "d_plus _ NaN = NaN"
| "d_plus PInf NInf = NaN"
| "d_plus NInf PInf = NaN"
| "d_plus PInf _ = PInf"
| "d_plus _ PInf = PInf"
| "d_plus NInf _ = NInf"
| "d_plus _ NInf = NInf"
| "d_plus (Fin a) (Fin b) = Fin (a + b)"

text \<open>\<^verbatim>\<open>a / n\<close> for a double \<open>a\<close> and a \<^verbatim>\<open>size_t\<close> \<open>n\<close> (converted to a non-negative double).\<close>

fun d_div :: "double \<Rightarrow> nat \<Rightarrow> double" where
  "d_div NaN n = NaN"
| "d_div PInf n = PInf"
| "d_div NInf n = NInf"
| "d_div (Fin a) n =
     (if n = 0 then (if a = 0 then NaN else if 0 < a then PInf else NInf)
      else Fin (a / real n))"

text \<open>\<^verbatim>\<open>a < b\<close> on doubles: false as soon as one side is NaN.\<close>

fun d_less :: "double \<Rightarrow> double \<Rightarrow> bool" where
  "d_less NaN _ = False"
| "d_less _ NaN = False"
| "d_less (Fin a) (Fin b) = (a < b)"
| "d_less (Fin a) PInf = True"
| "d_less (Fin a) NInf = False"
| "d_less PInf _ = False"
| "d_less NInf NInf = False"
| "d_less NInf _ = True"

section \<open>The optimizer and its collaborators\<close>

text \<open>
  The decomposable objective (\<^verbatim>\<open>DecomposableFunctionType\<close>): the number of component
  functions, the gradient of component \<open>i\<close> at a point (a matrix of the point's size when
  the objective keeps its contract) and the value of component \<open>i\<close> at a point.
\<close>

record decomposable =
  NumFunctions :: nat
  Gradient :: "amat \<Rightarrow> nat \<Rightarrow> amat"
  Evaluate :: "amat \<Rightarrow> nat \<Rightarrow> double"

text \<open>The members of \<^verbatim>\<open>IQN\<close>; \<^verbatim>\<open>maxIterations\<close> is a 64-bit \<^verbatim>\<open>size_t\<close>.\<close>

record IQN =
  stepSize :: real
  maxIterations :: "64 word"
  tolerance :: double

text \<open>
  What the run takes from Armadillo besides matrix arithmetic: the samples drawn by
  \<^verbatim>\<open>arma::randn\<close>, and the inverse \<^verbatim>\<open>B.i()\<close>, which returns \<open>None\<close> where Armadillo
  throws because the matrix appears singular.
\<close>

record armadillo =
  samples :: "nat \<Rightarrow> real"
  mat_i :: "amat \<Rightarrow> amat option"

text \<open>
  The run does not end in a returned scalar when Armadillo throws (sizes that do not
  match, a slice index out of bounds, a singular matrix). \<open>NonFinite\<close> marks a division
  by zero inside the curvature update: the doubles become infinite or NaN there, which the
  real-valued matrices of this model cannot follow, so the run is not traced further.
\<close>

datatype error = ShapeMismatch | IndexOutOfBounds | SingularMatrix | NonFinite

text \<open>The calls made to the objective, in the order they happen.\<close>

datatype call = GradientCall amat nat | EvaluateCall amat nat

text \<open>
  Two pairs of matrix headers share a buffer: \<^verbatim>\<open>iterateVec\<close> is built over
  \<^verbatim>\<open>iterate.memptr()\<close> and \<^verbatim>\<open>gVec\<close> over \<^verbatim>\<open>g.memptr()\<close>, both without copying. A
  header of such a matrix is a \<open>view\<close>: a size and the address of its buffer in the store.
\<close>

type_synonym addr = nat

record view =
  v_rows :: nat
  v_cols :: nat
  v_ptr :: addr

type_synonym store = "addr \<Rightarrow> real list"

definition deref :: "store \<Rightarrow> view \<Rightarrow> amat" where
  "deref h v = \<lparr>n_rows = v_rows v, n_cols = v_cols v, mem = h (v_ptr v)\<rparr>"

text \<open>
  The local variables of \<^verbatim>\<open>IQN::Optimize\<close>. The cubes \<open>y\<close>, \<open>t\<close>, \<open>Q\<close> are lists of
  slices. \<open>calls\<close> and \<open>info\<close> record what the run shows to the outside: the calls to the
  objective and the lines "IQN: iteration i, objective v" written to \<^verbatim>\<open>Log::Info\<close>.
\<close>

record iqn_state =
  heap :: store
  iterate :: view
  iterateVec :: view
  g :: view
  gVec :: view
  y :: "amat list"
  t :: "amat list"
  Q :: "amat list"
  B :: amat
  u :: amat
  gradient :: amat
  overallObjective :: double
  calls :: "call list"
  info :: "(64 word \<times> double) list"

text \<open>The three ways \<^verbatim>\<open>Optimize\<close> returns, told apart by the message it logs.\<close>

datatype outcome = NUMERICAL_FAILURE | CONVERGED | MAX_ITERATIONS_REACHED

record result =
  returned :: double
  outcome :: outcome
  final :: iqn_state


section \<open>\<^verbatim>\<open>IQN::Optimize\<close>\<close>

subsection \<open>Initialization (lines 36 to 65)\<close>

text \<open>
  The loop of lines 48 to 56 over the slices \<open>i\<close>. The slice \<open>y.slice(i)\<close> is handed to
  \<^verbatim>\<open>Gradient\<close> as the output argument; a slice cannot change its size, so a gradient of
  another size makes Armadillo throw.
\<close>

fun init_loop ::
  "decomposable \<Rightarrow> amat \<Rightarrow> nat list \<Rightarrow> amat list \<times> amat list \<times> amat list \<times> amat \<times> call list \<Rightarrow>
   error + amat list \<times> amat list \<times> amat list \<times> amat \<times> call list" where
  "init_loop f initialIterate [] v = Inr v"
| "init_loop f initialIterate (i # rest) (ys, ts, Qs, gsum, cs) =
     (let ts' = ts[i := vectorise initialIterate];
          grad = Gradient f initialIterate i;
          cs' = cs @ [GradientCall initialIterate i]
      in if \<not> same_size grad (ys ! i) then Inl ShapeMismatch
         else
           let ys' = ys[i := grad];
               Qs' = Qs[i := eye (n_rows (Qs ! i)) (n_cols (Qs ! i))];
               gsum' = m_plus gsum (ys' ! i)
           in init_loop f initialIterate rest (ys', ts', Qs', gsum', cs'))"

text \<open>
  The caller's matrix \<open>iterate\<close> keeps its buffer at address 0 and \<open>g\<close> gets address 1.
  The cubes and \<open>gradient\<close> are written before they are read, so what their fresh memory
  holds does not matter; it is zero here. With no component function, the loop does
  nothing and \<^verbatim>\<open>t.slice(0)\<close> at line 60 is out of bounds.
\<close>

definition init :: "decomposable \<Rightarrow> armadillo \<Rightarrow> amat \<Rightarrow> error + iqn_state" where
  "init f lib iterate0 =
     (let numFunctions = NumFunctions f;
          r = n_rows iterate0; c = n_cols iterate0; d = n_elem iterate0;
          y0 = replicate numFunctions (zeros r c);
          t0 = replicate numFunctions (zeros d 1);
          Q0 = replicate numFunctions (zeros d d);
          initialIterate = randn (samples lib) r c
      in case init_loop f initialIterate [0..<numFunctions] (y0, t0, Q0, zeros r c, []) of
           Inl e \<Rightarrow> Inl e
         | Inr (y1, t1, Q1, g1, calls1) \<Rightarrow>
             if numFunctions = 0 then Inl IndexOutOfBounds
             else Inr \<lparr>heap = (\<lambda>a. [])(0 := mem iterate0, 1 := mem (m_div g1 (real numFunctions))),
                       iterate = \<lparr>v_rows = r, v_cols = c, v_ptr = 0\<rparr>,
                       iterateVec = \<lparr>v_rows = d, v_cols = 1, v_ptr = 0\<rparr>,
                       g = \<lparr>v_rows = r, v_cols = c, v_ptr = 1\<rparr>,
                       gVec = \<lparr>v_rows = d, v_cols = 1, v_ptr = 1\<rparr>,
                       y = y1, t = t1, Q = Q1,
                       B = eye d d,
                       u = t1 ! 0,
                       gradient = zeros r c,
                       overallObjective = Fin 0,
                       calls = calls1,
                       info = []\<rparr>)"

subsection \<open>One inner step (lines 72 to 101)\<close>

text \<open>The rank-two update of lines 80 to 82.\<close>

definition stochasticHessian :: "amat \<Rightarrow> amat \<Rightarrow> amat \<Rightarrow> amat" where
  "stochasticHessian Qit s yy =
     m_minus
       (m_plus Qit (m_div (m_times yy (m_t yy)) (as_scalar (m_times (m_t yy) s))))
       (m_div (m_times (m_times (m_times Qit s) (m_t s)) Qit)
              (as_scalar (m_times (m_times (m_t s) Qit) s)))"

text \<open>The right-hand side of the assignment of lines 99 and 100.\<close>

definition newton :: "real \<Rightarrow> amat \<Rightarrow> amat \<Rightarrow> amat \<Rightarrow> amat \<Rightarrow> amat" where
  "newton step Bi uv gv iv =
     m_plus (m_times (s_times step Bi) (m_minus uv gv)) (s_times (1 - step) iv)"

text \<open>Line 72: the component that step \<open>j\<close> of a sweep selects.\<close>

definition selected :: "nat \<Rightarrow> nat \<Rightarrow> nat" where
  "selected numFunctions j = (j + 1) mod numFunctions"

text \<open>
  Lines 74 to 101 for the selected component \<open>it\<close>. Armadillo throws when the
  gradient has not the size of the stored one (line 78), when \<open>B\<close> appears singular
  and when the inverse does not fit the product and the sum of line 99; the operands of
  the other operations have matching sizes in every state of a run (\<open>shapes_ok\<close> below).
  \<open>g += \<dots>\<close> writes into the buffer of \<open>g\<close>, which \<open>gVec\<close> reads afterwards. The
  value assigned to \<open>iterateVec\<close> has the size of \<open>iterateVec\<close> (the sum throws
  otherwise), so Armadillo copies it into the buffer the header points to, the caller's.
\<close>

definition visit :: "decomposable \<Rightarrow> IQN \<Rightarrow> armadillo \<Rightarrow> nat \<Rightarrow> iqn_state \<Rightarrow> error + iqn_state" where
  "visit f opt lib it st =
     (let numFunctions = NumFunctions f;
          iterateV = deref (heap st) (iterateVec st)
      in if norm2 (m_minus iterateV (t st ! it)) > 0 then
           let grad = Gradient f (deref (heap st) (iterate st)) it;
               calls' = calls st @ [GradientCall (deref (heap st) (iterate st)) it];
               s = m_minus iterateV (t st ! it)
           in if \<not> same_size grad (y st ! it) then Inl ShapeMismatch
              else
                let yy = vectorise (m_minus grad (y st ! it))
                in if as_scalar (m_times (m_t yy) s) = 0
                      \<or> as_scalar (m_times (m_times (m_t s) (Q st ! it)) s) = 0
                   then Inl NonFinite
                   else
                     let sH = stochasticHessian (Q st ! it) s yy;
                         B' = m_plus (B st) (s_times (1 / real numFunctions) (m_minus sH (Q st ! it)));
                         u' = m_plus (u st)
                                (s_times (1 / real numFunctions)
                                   (m_minus (m_times sH iterateV) (m_times (Q st ! it) (t st ! it))));
                         g' = m_plus (deref (heap st) (g st))
                                (s_times (1 / real numFunctions) (m_minus grad (y st ! it)));
                         heap1 = (heap st)(v_ptr (g st) := mem g');
                         Q' = (Q st)[it := sH];
                         y' = (y st)[it := grad];
                         t' = (t st)[it := iterateV]
                     in case mat_i lib B' of
                          None \<Rightarrow> Inl SingularMatrix
                        | Some Bi \<Rightarrow>
                            if n_cols Bi \<noteq> n_rows u' \<or> n_rows Bi \<noteq> n_rows iterateV
                               \<or> n_cols u' \<noteq> n_cols iterateV
                            then Inl ShapeMismatch
                            else
                              let new = newton (stepSize opt) Bi u' (deref heap1 (gVec st)) iterateV
                              in Inr (st\<lparr>heap := heap1(v_ptr (iterateVec st) := mem new),
                                         y := y', t := t', Q := Q', B := B', u := u',
                                         gradient := grad, calls := calls'\<rparr>)
         else Inr st)"

text \<open>The body of the loop over \<open>j\<close>: lines 72 to 101.\<close>

definition inner_step :: "decomposable \<Rightarrow> IQN \<Rightarrow> armadillo \<Rightarrow> nat \<Rightarrow> iqn_state \<Rightarrow> error + iqn_state" where
  "inner_step f opt lib j st = visit f opt lib (selected (NumFunctions f) j) st"

subsection \<open>The sweeps (lines 67 to 131)\<close>

text \<open>The loop over \<open>j\<close> of lines 69 to 102; an exception ends it.\<close>

fun inner_loop :: "decomposable \<Rightarrow> IQN \<Rightarrow> armadillo \<Rightarrow> nat list \<Rightarrow> iqn_state \<Rightarrow> error + iqn_state" where
  "inner_loop f opt lib [] st = Inr st"
| "inner_loop f opt lib (j # js) st =
     (case inner_step f opt lib j st of
        Inl e \<Rightarrow> Inl e
      | Inr st' \<Rightarrow> inner_loop f opt lib js st')"

text \<open>Lines 104 to 111: the mean of the component values at \<open>iterate\<close>, and the log line.\<close>

definition mean_objective :: "decomposable \<Rightarrow> amat \<Rightarrow> double" where
  "mean_objective f x =
     d_div (foldl (\<lambda>acc i. d_plus acc (Evaluate f x i)) (Fin 0) [0..<NumFunctions f])
           (NumFunctions f)"

definition objective :: "decomposable \<Rightarrow> 64 word \<Rightarrow> iqn_state \<Rightarrow> iqn_state" where
  "objective f i st =
     (let x = deref (heap st) (iterate st);
          v = mean_objective f x
      in st\<lparr>overallObjective := v,
            calls := calls st @ map (EvaluateCall x) [0..<NumFunctions f],
            info := info st @ [(i, v)]\<rparr>)"

text \<open>
  The loop \<^verbatim>\<open>for (size_t i = 1; i != maxIterations; ++i)\<close> from the value \<open>i\<close> of
  its counter on, and the return after it. The counter wraps around at \<open>2 ^ 64\<close>.
\<close>

function sweeps :: "decomposable \<Rightarrow> IQN \<Rightarrow> armadillo \<Rightarrow> 64 word \<Rightarrow> iqn_state \<Rightarrow> error + result" where
  "sweeps f opt lib i st =
     (if i = maxIterations opt
      then Inr \<lparr>returned = overallObjective st, outcome = MAX_ITERATIONS_REACHED, final = st\<rparr>
      else
        case inner_loop f opt lib [0..<NumFunctions f] st of
          Inl e \<Rightarrow> Inl e
        | Inr st1 \<Rightarrow>
            let st2 = objective f i st1
            in if isnan (overallObjective st2) \<or> isinf (overallObjective st2)
               then Inr \<lparr>returned = overallObjective st2, outcome = NUMERICAL_FAILURE, final = st2\<rparr>
               else if d_less (overallObjective st2) (tolerance opt)
               then Inr \<lparr>returned = overallObjective st2, outcome = CONVERGED, final = st2\<rparr>
               else sweeps f opt lib (i + 1) st2)"
  by pat_completeness auto

termination sweeps
proof (relation "measure (\<lambda>(f, opt, lib, i, st). unat (maxIterations opt - i))")
  show "wf (measure (\<lambda>(f, opt, lib, i, st). unat (maxIterations opt - i)))"
    by simp
next
  fix f :: decomposable and opt :: IQN and lib :: armadillo and i :: "64 word"
    and st st1 st2 :: iqn_state
  assume "i \<noteq> maxIterations opt"
  then have "maxIterations opt - i \<noteq> 0" by simp
  then have "unat (maxIterations opt - i - 1) < unat (maxIterations opt - i)"
    by (simp add: unat_minus_one unat_gt_0)
  moreover have "maxIterations opt - (i + 1) = maxIterations opt - i - 1" by simp
  ultimately have "unat (maxIterations opt - (i + 1)) < unat (maxIterations opt - i)"
    by (simp only:)
  then show "((f, opt, lib, i + 1, st2), (f, opt, lib, i, st)) \<in>
             measure (\<lambda>(f, opt, lib, i, st). unat (maxIterations opt - i))"
    by simp
qed

definition Optimize :: "decomposable \<Rightarrow> IQN \<Rightarrow> armadillo \<Rightarrow> amat \<Rightarrow> error + result" where
  "Optimize f opt lib iterate0 =
     (case init f lib iterate0 of
        Inl e \<Rightarrow> Inl e
      | Inr st \<Rightarrow> sweeps f opt lib 1 st)"

section \<open>Closed forms, invariants and the quantities of the statements\<close>

text \<open>A matrix has \<open>r\<close> rows and \<open>c\<close> columns.\<close>

definition sized :: "nat \<Rightarrow> nat \<Rightarrow> amat \<Rightarrow> bool" where
  "sized r c A \<longleftrightarrow> n_rows A = r \<and> n_cols A = c"

text \<open>
  The average \<open>(1/n) \<cdot> \<Sum>\<^sub>i M\<^sub>i\<close> of a list of \<open>r \<times> c\<close> matrices, computed from scratch.
\<close>

definition slice_sum :: "nat \<Rightarrow> nat \<Rightarrow> amat list \<Rightarrow> amat" where
  "slice_sum r c Ms = mk r c (\<lambda>i j. sum_list (map (\<lambda>M. elem M i j) Ms))"

definition average :: "nat \<Rightarrow> nat \<Rightarrow> nat \<Rightarrow> amat list \<Rightarrow> amat" where
  "average n r c Ms = s_times (1 / real n) (slice_sum r c Ms)"

text \<open>
  The state that lines 36 to 65 build when every gradient has the size of \<open>iterate\<close>
  and there is a component function: the closed form of \<open>init\<close>.
\<close>

definition initial_state :: "decomposable \<Rightarrow> armadillo \<Rightarrow> amat \<Rightarrow> iqn_state" where
  "initial_state f lib iterate0 =
     (let n = NumFunctions f; r = n_rows iterate0; c = n_cols iterate0; d = n_elem iterate0;
          X = randn (samples lib) r c
      in \<lparr>heap = (\<lambda>a. [])(0 := mem iterate0,
                 1 := mem (m_div (slice_sum r c (map (Gradient f X) [0..<n])) (real n))),
          iterate = \<lparr>v_rows = r, v_cols = c, v_ptr = 0\<rparr>,
          iterateVec = \<lparr>v_rows = d, v_cols = 1, v_ptr = 0\<rparr>,
          g = \<lparr>v_rows = r, v_cols = c, v_ptr = 1\<rparr>,
          gVec = \<lparr>v_rows = d, v_cols = 1, v_ptr = 1\<rparr>,
          y = map (Gradient f X) [0..<n],
          t = replicate n (vectorise X),
          Q = replicate n (eye d d),
          B = eye d d,
          u = vectorise X,
          gradient = zeros r c,
          overallObjective = Fin 0,
          calls = map (GradientCall X) [0..<n],
          info = []\<rparr>)"


text \<open>
  The values an inner step works with when it visits component \<open>it\<close> in state \<open>st\<close>:
  the current iterate as a vector, the guard of line 74, the gradient of line 76, the
  secant pair of lines 77 and 78, and the new curvature and aggregates of lines 80 to 92.
\<close>

definition cur_iterate :: "iqn_state \<Rightarrow> amat" where
  "cur_iterate st = deref (heap st) (iterateVec st)"

definition secant_s :: "iqn_state \<Rightarrow> nat \<Rightarrow> amat" where
  "secant_s st it = m_minus (cur_iterate st) (t st ! it)"

definition updates :: "iqn_state \<Rightarrow> nat \<Rightarrow> bool" where
  "updates st it \<longleftrightarrow> norm2 (secant_s st it) > 0"

definition new_gradient :: "decomposable \<Rightarrow> iqn_state \<Rightarrow> nat \<Rightarrow> amat" where
  "new_gradient f st it = Gradient f (deref (heap st) (iterate st)) it"

definition secant_y :: "decomposable \<Rightarrow> iqn_state \<Rightarrow> nat \<Rightarrow> amat" where
  "secant_y f st it = vectorise (m_minus (new_gradient f st it) (y st ! it))"

definition new_Q :: "decomposable \<Rightarrow> iqn_state \<Rightarrow> nat \<Rightarrow> amat" where
  "new_Q f st it = stochasticHessian (Q st ! it) (secant_s st it) (secant_y f st it)"

definition new_B :: "decomposable \<Rightarrow> iqn_state \<Rightarrow> nat \<Rightarrow> amat" where
  "new_B f st it =
     m_plus (B st) (s_times (1 / real (NumFunctions f)) (m_minus (new_Q f st it) (Q st ! it)))"

definition new_u :: "decomposable \<Rightarrow> iqn_state \<Rightarrow> nat \<Rightarrow> amat" where
  "new_u f st it =
     m_plus (u st)
       (s_times (1 / real (NumFunctions f))
          (m_minus (m_times (new_Q f st it) (cur_iterate st)) (m_times (Q st ! it) (t st ! it))))"

definition new_g :: "decomposable \<Rightarrow> iqn_state \<Rightarrow> nat \<Rightarrow> amat" where
  "new_g f st it =
     m_plus (deref (heap st) (g st))
       (s_times (1 / real (NumFunctions f)) (m_minus (new_gradient f st it) (y st ! it)))"

text \<open>The state an updating visit of component \<open>it\<close> returns, given the inverse \<open>Bi\<close>.\<close>

definition updated :: "decomposable \<Rightarrow> IQN \<Rightarrow> amat \<Rightarrow> nat \<Rightarrow> iqn_state \<Rightarrow> iqn_state" where
  "updated f opt Bi it st =
     (let heap1 = (heap st)(v_ptr (g st) := mem (new_g f st it));
          new = newton (stepSize opt) Bi (new_u f st it) (deref heap1 (gVec st)) (cur_iterate st)
      in st\<lparr>heap := heap1(v_ptr (iterateVec st) := mem new),
            y := (y st)[it := new_gradient f st it],
            t := (t st)[it := cur_iterate st],
            Q := (Q st)[it := new_Q f st it],
            B := new_B f st it,
            u := new_u f st it,
            gradient := new_gradient f st it,
            calls := calls st @ [GradientCall (deref (heap st) (iterate st)) it]\<rparr>)"

text \<open>
  The sizes of the run on an \<open>r \<times> c\<close> iterate: the four headers, the lengths of the cubes
  and the sizes of their slices and of the aggregates.
\<close>

definition shapes_ok :: "decomposable \<Rightarrow> nat \<Rightarrow> nat \<Rightarrow> iqn_state \<Rightarrow> bool" where
  "shapes_ok f r c st \<longleftrightarrow>
     iterate st = \<lparr>v_rows = r, v_cols = c, v_ptr = 0\<rparr>
     \<and> iterateVec st = \<lparr>v_rows = r * c, v_cols = 1, v_ptr = 0\<rparr>
     \<and> g st = \<lparr>v_rows = r, v_cols = c, v_ptr = 1\<rparr>
     \<and> gVec st = \<lparr>v_rows = r * c, v_cols = 1, v_ptr = 1\<rparr>
     \<and> length (y st) = NumFunctions f
     \<and> length (t st) = NumFunctions f
     \<and> length (Q st) = NumFunctions f
     \<and> list_all (sized r c) (y st)
     \<and> list_all (sized (r * c) 1) (t st)
     \<and> list_all (sized (r * c) (r * c)) (Q st)
     \<and> sized (r * c) (r * c) (B st)
     \<and> sized (r * c) 1 (u st)"

text \<open>
  Aggregate consistency: each aggregate equals the average, computed from scratch, over
  the records of all components: \<open>B = (1/n) \<Sum> Q\<^sub>i\<close>, \<open>g = (1/n) \<Sum> y\<^sub>i\<close> and
  \<open>u = (1/n) \<Sum> Q\<^sub>i t\<^sub>i\<close>.
\<close>

definition aggregate_consistent :: "decomposable \<Rightarrow> iqn_state \<Rightarrow> bool" where
  "aggregate_consistent f st \<longleftrightarrow>
     (let n = NumFunctions f;
          r = v_rows (iterate st); c = v_cols (iterate st);
          d = v_rows (iterateVec st)
      in B st = average n d d (Q st)
         \<and> deref (heap st) (g st) = average n r c (y st)
         \<and> u st = average n d 1 (map2 m_times (Q st) (t st)))"

text \<open>
  The states a run on \<open>iterate0\<close> can be in: the state after the initialization, and from
  such a state the state after an inner step that did not throw and the state after the
  evaluation of the objective that ends a sweep.
\<close>

inductive reachable :: "decomposable \<Rightarrow> IQN \<Rightarrow> armadillo \<Rightarrow> amat \<Rightarrow> iqn_state \<Rightarrow> bool"
  for f :: decomposable and opt :: IQN and lib :: armadillo and iterate0 :: amat where
  after_init: "init f lib iterate0 = Inr st \<Longrightarrow> reachable f opt lib iterate0 st"
| after_step: "reachable f opt lib iterate0 st \<Longrightarrow> j < NumFunctions f \<Longrightarrow>
     inner_step f opt lib j st = Inr st' \<Longrightarrow> reachable f opt lib iterate0 st'"
| after_objective: "reachable f opt lib iterate0 st \<Longrightarrow>
     reachable f opt lib iterate0 (objective f i st)"

text \<open>\<open>Ai\<close> is the inverse of the matrix \<open>A\<close>.\<close>

definition inverse_of :: "amat \<Rightarrow> amat \<Rightarrow> bool" where
  "inverse_of Ai A \<longleftrightarrow>
     sized (n_cols A) (n_rows A) Ai
     \<and> m_times A Ai = eye (n_rows A) (n_rows A)
     \<and> m_times Ai A = eye (n_cols A) (n_cols A)"


section \<open>A small instance\<close>

text \<open>
  Two component functions \<open>f\<^sub>i(x) = (x - i)\<^sup>2 / 2\<close> of one real variable, an inverse for
  \<open>1 \<times> 1\<close> matrices, a generator that draws zeros, and the caller's starting point 3.
\<close>

definition two_quadratics :: decomposable where
  "two_quadratics =
     \<lparr>NumFunctions = 2,
      Gradient = (\<lambda>x i. mk (n_rows x) (n_cols x) (\<lambda>a b. elem x a b - real i)),
      Evaluate = (\<lambda>x i. Fin ((elem x 0 0 - real i) * (elem x 0 0 - real i) / 2))\<rparr>"

definition scalar_lib :: armadillo where
  "scalar_lib =
     \<lparr>samples = (\<lambda>k. 0),
      mat_i = (\<lambda>M. if n_rows M = 1 \<and> n_cols M = 1 \<and> elem M 0 0 \<noteq> 0
                    then Some (mk 1 1 (\<lambda>a b. 1 / elem M 0 0)) else None)\<rparr>"

definition start3 :: amat where
  "start3 = \<lparr>n_rows = 1, n_cols = 1, mem = [3]\<rparr>"

definition full_step :: IQN where
  "full_step = \<lparr>stepSize = 1, maxIterations = 3, tolerance = Fin 1\<rparr>"

definition one_iteration :: IQN where
  "one_iteration = \<lparr>stepSize = 1, maxIterations = 1, tolerance = Fin 0\<rparr>"

text \<open>
  The states of the run on this instance: after the initialization (\<open>run_a\<close>), after
  the two steps of the first sweep (\<open>run_b\<close>, \<open>run_c\<close>), after the objective of the
  first sweep (\<open>run_c_obj\<close>), and after the first step of the second sweep (\<open>run_d\<close>).
\<close>

definition scalar :: "real \<Rightarrow> amat" where
  "scalar x = \<lparr>n_rows = 1, n_cols = 1, mem = [x]\<rparr>"

definition scalar_view :: "addr \<Rightarrow> view" where
  "scalar_view a = \<lparr>v_rows = 1, v_cols = 1, v_ptr = a\<rparr>"

definition run_a :: iqn_state where
  "run_a =
     \<lparr>heap = (\<lambda>a. [])(0 := [3], 1 := [- 1 / 2]),
      iterate = scalar_view 0, iterateVec = scalar_view 0,
      g = scalar_view 1, gVec = scalar_view 1,
      y = [scalar 0, scalar (- 1)],
      t = [scalar 0, scalar 0],
      Q = [scalar 1, scalar 1],
      B = scalar 1,
      u = scalar 0,
      gradient = scalar 0,
      overallObjective = Fin 0,
      calls = [GradientCall (scalar 0) 0, GradientCall (scalar 0) 1],
      info = []\<rparr>"

definition run_b :: iqn_state where
  "run_b =
     run_a\<lparr>heap := (\<lambda>a. [])(0 := [1 / 2], 1 := [1]),
            y := [scalar 0, scalar 2],
            t := [scalar 0, scalar 3],
            u := scalar (3 / 2),
            gradient := scalar 2,
            calls := calls run_a @ [GradientCall (scalar 3) 1]\<rparr>"

definition run_c :: iqn_state where
  "run_c =
     run_b\<lparr>heap := (\<lambda>a. [])(0 := [1 / 2], 1 := [5 / 4]),
            y := [scalar (1 / 2), scalar 2],
            t := [scalar (1 / 2), scalar 3],
            u := scalar (7 / 4),
            gradient := scalar (1 / 2),
            calls := calls run_b @ [GradientCall (scalar (1 / 2)) 0]\<rparr>"

definition run_c_obj :: iqn_state where
  "run_c_obj =
     run_c\<lparr>overallObjective := Fin (1 / 8),
            calls := calls run_c @ [EvaluateCall (scalar (1 / 2)) 0, EvaluateCall (scalar (1 / 2)) 1],
            info := [(1, Fin (1 / 8))]\<rparr>"

definition run_d :: iqn_state where
  "run_d =
     run_c_obj\<lparr>heap := (\<lambda>a. [])(0 := [1 / 2], 1 := [0]),
                y := [scalar (1 / 2), scalar (- 1 / 2)],
                t := [scalar (1 / 2), scalar (1 / 2)],
                u := scalar (1 / 2),
                gradient := scalar (- 1 / 2),
                calls := calls run_c_obj @ [GradientCall (scalar (1 / 2)) 1]\<rparr>"

section \<open>The run with the arithmetic of doubles left open\<close>

text \<open>
  The claims about what \<^verbatim>\<open>Optimize\<close> returns and where it writes do not depend on what
  the arithmetic of doubles computes. For them the run is modelled once more, line by
  line, over an arbitrary type \<open>'a\<close> of scalars with its operations as parameters: the
  rounding, the overflow to an infinity and the propagation of NaN are whatever these
  operations do. A division by zero is a division like any other here, and the run goes on
  with its result, as the code does. The operators of an expression are applied one by one
  in the order of C++, each on whole matrices, and the exceptions are those of \<open>visit\<close>:
  the sizes that do not match, the slice that does not exist, the matrix without inverse.
\<close>

record 'a arith =
  fp_add :: "'a \<Rightarrow> 'a \<Rightarrow> 'a"
  fp_sub :: "'a \<Rightarrow> 'a \<Rightarrow> 'a"
  fp_mul :: "'a \<Rightarrow> 'a \<Rightarrow> 'a"
  fp_div :: "'a \<Rightarrow> 'a \<Rightarrow> 'a"
  fp_dot :: "'a list \<Rightarrow> 'a list \<Rightarrow> 'a"
  fp_zero :: 'a
  fp_one :: 'a
  fp_of_size :: "nat \<Rightarrow> 'a"
  fp_norm_positive :: "'a list \<Rightarrow> bool"
  fp_isnan :: "'a \<Rightarrow> bool"
  fp_isinf :: "'a \<Rightarrow> bool"
  fp_less :: "'a \<Rightarrow> 'a \<Rightarrow> bool"

text \<open>
  \<open>fp_dot\<close> is the inner product of a row and a column, in the order in which the matrix
  product accumulates it; \<open>fp_of_size\<close> converts a \<^verbatim>\<open>size_t\<close>; \<open>fp_norm_positive\<close> is
  the test \<^verbatim>\<open>arma::norm(v) > 0\<close> on the elements of a vector.
\<close>

record 'a fmat =
  f_rows :: nat
  f_cols :: nat
  f_mem :: "'a list"

definition f_elem :: "'a fmat \<Rightarrow> nat \<Rightarrow> nat \<Rightarrow> 'a" where
  "f_elem M i j = f_mem M ! (i + j * f_rows M)"

definition f_same_size :: "'a fmat \<Rightarrow> 'a fmat \<Rightarrow> bool" where
  "f_same_size A X \<longleftrightarrow> f_rows A = f_rows X \<and> f_cols A = f_cols X"

definition f_mk :: "nat \<Rightarrow> nat \<Rightarrow> (nat \<Rightarrow> nat \<Rightarrow> 'a) \<Rightarrow> 'a fmat" where
  "f_mk r c h = \<lparr>f_rows = r, f_cols = c, f_mem = map (\<lambda>k. h (k mod r) (k div r)) [0..<r * c]\<rparr>"

definition f_zeros :: "'a arith \<Rightarrow> nat \<Rightarrow> nat \<Rightarrow> 'a fmat" where
  "f_zeros ar r c = f_mk r c (\<lambda>i j. fp_zero ar)"

definition f_eye :: "'a arith \<Rightarrow> nat \<Rightarrow> nat \<Rightarrow> 'a fmat" where
  "f_eye ar r c = f_mk r c (\<lambda>i j. if i = j then fp_one ar else fp_zero ar)"

definition f_randn :: "(nat \<Rightarrow> 'a) \<Rightarrow> nat \<Rightarrow> nat \<Rightarrow> 'a fmat" where
  "f_randn smp r c = \<lparr>f_rows = r, f_cols = c, f_mem = map smp [0..<r * c]\<rparr>"

definition f_plus :: "'a arith \<Rightarrow> 'a fmat \<Rightarrow> 'a fmat \<Rightarrow> 'a fmat" where
  "f_plus ar A X = f_mk (f_rows A) (f_cols A) (\<lambda>i j. fp_add ar (f_elem A i j) (f_elem X i j))"

definition f_minus :: "'a arith \<Rightarrow> 'a fmat \<Rightarrow> 'a fmat \<Rightarrow> 'a fmat" where
  "f_minus ar A X = f_mk (f_rows A) (f_cols A) (\<lambda>i j. fp_sub ar (f_elem A i j) (f_elem X i j))"

definition f_scale :: "'a arith \<Rightarrow> 'a \<Rightarrow> 'a fmat \<Rightarrow> 'a fmat" where
  "f_scale ar a A = f_mk (f_rows A) (f_cols A) (\<lambda>i j. fp_mul ar a (f_elem A i j))"

definition f_div :: "'a arith \<Rightarrow> 'a fmat \<Rightarrow> 'a \<Rightarrow> 'a fmat" where
  "f_div ar A a = f_mk (f_rows A) (f_cols A) (\<lambda>i j. fp_div ar (f_elem A i j) a)"

definition f_times :: "'a arith \<Rightarrow> 'a fmat \<Rightarrow> 'a fmat \<Rightarrow> 'a fmat" where
  "f_times ar A X =
     f_mk (f_rows A) (f_cols X)
       (\<lambda>i j. fp_dot ar (map (\<lambda>k. f_elem A i k) [0..<f_cols A])
                          (map (\<lambda>k. f_elem X k j) [0..<f_cols A]))"

definition f_t :: "'a fmat \<Rightarrow> 'a fmat" where
  "f_t A = f_mk (f_cols A) (f_rows A) (\<lambda>i j. f_elem A j i)"

definition f_vectorise :: "'a fmat \<Rightarrow> 'a fmat" where
  "f_vectorise A = \<lparr>f_rows = f_rows A * f_cols A, f_cols = 1, f_mem = f_mem A\<rparr>"

definition f_as_scalar :: "'a fmat \<Rightarrow> 'a" where
  "f_as_scalar A = f_elem A 0 0"

definition f_deref :: "(addr \<Rightarrow> 'a list) \<Rightarrow> view \<Rightarrow> 'a fmat" where
  "f_deref h v = \<lparr>f_rows = v_rows v, f_cols = v_cols v, f_mem = h (v_ptr v)\<rparr>"

text \<open>The objective, the members of \<^verbatim>\<open>IQN\<close> and what the run takes from Armadillo.\<close>

record 'a objective_fp =
  NumFunctions_fp :: nat
  Gradient_fp :: "'a fmat \<Rightarrow> nat \<Rightarrow> 'a fmat"
  Evaluate_fp :: "'a fmat \<Rightarrow> nat \<Rightarrow> 'a"

record 'a IQN_fp =
  stepSize_fp :: 'a
  maxIterations_fp :: "64 word"
  tolerance_fp :: 'a

record 'a armadillo_fp =
  samples_fp :: "nat \<Rightarrow> 'a"
  mat_i_fp :: "'a fmat \<Rightarrow> 'a fmat option"

datatype 'a call_fp = GradientCall_fp "'a fmat" nat | EvaluateCall_fp "'a fmat" nat

record 'a state_fp =
  heap_fp :: "addr \<Rightarrow> 'a list"
  iterate_fp :: view
  iterateVec_fp :: view
  g_fp :: view
  gVec_fp :: view
  y_fp :: "'a fmat list"
  t_fp :: "'a fmat list"
  Q_fp :: "'a fmat list"
  B_fp :: "'a fmat"
  u_fp :: "'a fmat"
  gradient_fp :: "'a fmat"
  overallObjective_fp :: 'a
  calls_fp :: "'a call_fp list"
  info_fp :: "(64 word \<times> 'a) list"

record 'a result_fp =
  returned_fp :: 'a
  outcome_fp :: outcome
  final_fp :: "'a state_fp"

subsection \<open>Initialization (lines 36 to 65)\<close>

fun init_loop_fp ::
  "'a arith \<Rightarrow> 'a objective_fp \<Rightarrow> 'a fmat \<Rightarrow> nat list \<Rightarrow>
   'a fmat list \<times> 'a fmat list \<times> 'a fmat list \<times> 'a fmat \<times> 'a call_fp list \<Rightarrow>
   error + 'a fmat list \<times> 'a fmat list \<times> 'a fmat list \<times> 'a fmat \<times> 'a call_fp list" where
  "init_loop_fp ar f initialIterate [] v = Inr v"
| "init_loop_fp ar f initialIterate (i # rest) (ys, ts, Qs, gsum, cs) =
     (let ts' = ts[i := f_vectorise initialIterate];
          grad = Gradient_fp f initialIterate i;
          cs' = cs @ [GradientCall_fp initialIterate i]
      in if \<not> f_same_size grad (ys ! i) then Inl ShapeMismatch
         else
           let ys' = ys[i := grad];
               Qs' = Qs[i := f_eye ar (f_rows (Qs ! i)) (f_cols (Qs ! i))];
               gsum' = f_plus ar gsum (ys' ! i)
           in init_loop_fp ar f initialIterate rest (ys', ts', Qs', gsum', cs'))"

definition init_fp ::
  "'a arith \<Rightarrow> 'a objective_fp \<Rightarrow> 'a armadillo_fp \<Rightarrow> 'a fmat \<Rightarrow> error + 'a state_fp" where
  "init_fp ar f lib iterate0 =
     (let numFunctions = NumFunctions_fp f;
          r = f_rows iterate0; c = f_cols iterate0; d = f_rows iterate0 * f_cols iterate0;
          y0 = replicate numFunctions (f_zeros ar r c);
          t0 = replicate numFunctions (f_zeros ar d 1);
          Q0 = replicate numFunctions (f_zeros ar d d);
          initialIterate = f_randn (samples_fp lib) r c
      in case init_loop_fp ar f initialIterate [0..<numFunctions] (y0, t0, Q0, f_zeros ar r c, []) of
           Inl e \<Rightarrow> Inl e
         | Inr (y1, t1, Q1, g1, calls1) \<Rightarrow>
             if numFunctions = 0 then Inl IndexOutOfBounds
             else Inr \<lparr>heap_fp = (\<lambda>a. [])(0 := f_mem iterate0,
                                  1 := f_mem (f_div ar g1 (fp_of_size ar numFunctions))),
                       iterate_fp = \<lparr>v_rows = r, v_cols = c, v_ptr = 0\<rparr>,
                       iterateVec_fp = \<lparr>v_rows = d, v_cols = 1, v_ptr = 0\<rparr>,
                       g_fp = \<lparr>v_rows = r, v_cols = c, v_ptr = 1\<rparr>,
                       gVec_fp = \<lparr>v_rows = d, v_cols = 1, v_ptr = 1\<rparr>,
                       y_fp = y1, t_fp = t1, Q_fp = Q1,
                       B_fp = f_eye ar d d,
                       u_fp = t1 ! 0,
                       gradient_fp = f_zeros ar r c,
                       overallObjective_fp = fp_zero ar,
                       calls_fp = calls1,
                       info_fp = []\<rparr>)"

subsection \<open>One inner step (lines 72 to 101)\<close>

definition stochasticHessian_fp :: "'a arith \<Rightarrow> 'a fmat \<Rightarrow> 'a fmat \<Rightarrow> 'a fmat \<Rightarrow> 'a fmat" where
  "stochasticHessian_fp ar Qit s yy =
     f_minus ar
       (f_plus ar Qit
          (f_div ar (f_times ar yy (f_t yy)) (f_as_scalar (f_times ar (f_t yy) s))))
       (f_div ar (f_times ar (f_times ar (f_times ar Qit s) (f_t s)) Qit)
                 (f_as_scalar (f_times ar (f_times ar (f_t s) Qit) s)))"

text \<open>
  The value that lines 99 and 100 assign: \<open>stepSize * Bi * (u - gVec) + (1 - stepSize) *
  iterateVec\<close>, for the inverse \<open>Bi\<close> of \<open>B\<close>.
\<close>

definition newton_fp :: "'a arith \<Rightarrow> 'a \<Rightarrow> 'a fmat \<Rightarrow> 'a fmat \<Rightarrow> 'a fmat \<Rightarrow> 'a fmat \<Rightarrow> 'a fmat" where
  "newton_fp ar step Bi uv gv iv =
     f_plus ar (f_times ar (f_scale ar step Bi) (f_minus ar uv gv))
               (f_scale ar (fp_sub ar (fp_one ar) step) iv)"

text \<open>
  Lines 74 to 101 for the selected component \<open>it\<close>, with the exceptions of Armadillo as
  in \<open>visit\<close> and no other exit: the two quotients of lines 80 to 82 are taken whatever
  their denominators are.
\<close>

definition visit_fp ::
  "'a arith \<Rightarrow> 'a objective_fp \<Rightarrow> 'a IQN_fp \<Rightarrow> 'a armadillo_fp \<Rightarrow> nat \<Rightarrow> 'a state_fp \<Rightarrow>
   error + 'a state_fp" where
  "visit_fp ar f opt lib it st =
     (let numFunctions = NumFunctions_fp f;
          iterateV = f_deref (heap_fp st) (iterateVec_fp st)
      in if fp_norm_positive ar (f_mem (f_minus ar iterateV (t_fp st ! it))) then
           let grad = Gradient_fp f (f_deref (heap_fp st) (iterate_fp st)) it;
               calls' = calls_fp st @ [GradientCall_fp (f_deref (heap_fp st) (iterate_fp st)) it];
               s = f_minus ar iterateV (t_fp st ! it)
           in if \<not> f_same_size grad (y_fp st ! it) then Inl ShapeMismatch
              else
                let yy = f_vectorise (f_minus ar grad (y_fp st ! it));
                    sH = stochasticHessian_fp ar (Q_fp st ! it) s yy;
                    w = fp_div ar (fp_one ar) (fp_of_size ar numFunctions);
                    B' = f_plus ar (B_fp st) (f_scale ar w (f_minus ar sH (Q_fp st ! it)));
                    u' = f_plus ar (u_fp st)
                           (f_scale ar w
                              (f_minus ar (f_times ar sH iterateV)
                                 (f_times ar (Q_fp st ! it) (t_fp st ! it))));
                    g' = f_plus ar (f_deref (heap_fp st) (g_fp st))
                           (f_scale ar w (f_minus ar grad (y_fp st ! it)));
                    heap1 = (heap_fp st)(v_ptr (g_fp st) := f_mem g');
                    Q' = (Q_fp st)[it := sH];
                    y' = (y_fp st)[it := grad];
                    t' = (t_fp st)[it := iterateV]
                in case mat_i_fp lib B' of
                     None \<Rightarrow> Inl SingularMatrix
                   | Some Bi \<Rightarrow>
                       if f_cols Bi \<noteq> f_rows u' \<or> f_rows Bi \<noteq> f_rows iterateV
                          \<or> f_cols u' \<noteq> f_cols iterateV
                       then Inl ShapeMismatch
                       else
                         let new = newton_fp ar (stepSize_fp opt) Bi u'
                                     (f_deref heap1 (gVec_fp st)) iterateV
                         in Inr (st\<lparr>heap_fp := heap1(v_ptr (iterateVec_fp st) := f_mem new),
                                    y_fp := y', t_fp := t', Q_fp := Q', B_fp := B', u_fp := u',
                                    gradient_fp := grad, calls_fp := calls'\<rparr>)
         else Inr st)"

definition inner_step_fp ::
  "'a arith \<Rightarrow> 'a objective_fp \<Rightarrow> 'a IQN_fp \<Rightarrow> 'a armadillo_fp \<Rightarrow> nat \<Rightarrow> 'a state_fp \<Rightarrow>
   error + 'a state_fp" where
  "inner_step_fp ar f opt lib j st = visit_fp ar f opt lib (selected (NumFunctions_fp f) j) st"

subsection \<open>The sweeps (lines 67 to 131)\<close>

fun inner_loop_fp ::
  "'a arith \<Rightarrow> 'a objective_fp \<Rightarrow> 'a IQN_fp \<Rightarrow> 'a armadillo_fp \<Rightarrow> nat list \<Rightarrow> 'a state_fp \<Rightarrow>
   error + 'a state_fp" where
  "inner_loop_fp ar f opt lib [] st = Inr st"
| "inner_loop_fp ar f opt lib (j # js) st =
     (case inner_step_fp ar f opt lib j st of
        Inl e \<Rightarrow> Inl e
      | Inr st' \<Rightarrow> inner_loop_fp ar f opt lib js st')"

text \<open>Lines 104 to 107, with the sum and the quotient of doubles.\<close>

definition mean_objective_fp :: "'a arith \<Rightarrow> 'a objective_fp \<Rightarrow> 'a fmat \<Rightarrow> 'a" where
  "mean_objective_fp ar f x =
     fp_div ar
       (foldl (\<lambda>acc i. fp_add ar acc (Evaluate_fp f x i)) (fp_zero ar) [0..<NumFunctions_fp f])
       (fp_of_size ar (NumFunctions_fp f))"

definition objective_fp :: "'a arith \<Rightarrow> 'a objective_fp \<Rightarrow> 64 word \<Rightarrow> 'a state_fp \<Rightarrow> 'a state_fp" where
  "objective_fp ar f i st =
     (let x = f_deref (heap_fp st) (iterate_fp st);
          v = mean_objective_fp ar f x
      in st\<lparr>overallObjective_fp := v,
            calls_fp := calls_fp st @ map (EvaluateCall_fp x) [0..<NumFunctions_fp f],
            info_fp := info_fp st @ [(i, v)]\<rparr>)"

function sweeps_fp ::
  "'a arith \<Rightarrow> 'a objective_fp \<Rightarrow> 'a IQN_fp \<Rightarrow> 'a armadillo_fp \<Rightarrow> 64 word \<Rightarrow> 'a state_fp \<Rightarrow>
   error + 'a result_fp" where
  "sweeps_fp ar f opt lib i st =
     (if i = maxIterations_fp opt
      then Inr \<lparr>returned_fp = overallObjective_fp st, outcome_fp = MAX_ITERATIONS_REACHED,
                final_fp = st\<rparr>
      else
        case inner_loop_fp ar f opt lib [0..<NumFunctions_fp f] st of
          Inl e \<Rightarrow> Inl e
        | Inr st1 \<Rightarrow>
            let st2 = objective_fp ar f i st1
            in if fp_isnan ar (overallObjective_fp st2) \<or> fp_isinf ar (overallObjective_fp st2)
               then Inr \<lparr>returned_fp = overallObjective_fp st2, outcome_fp = NUMERICAL_FAILURE,
                         final_fp = st2\<rparr>
               else if fp_less ar (overallObjective_fp st2) (tolerance_fp opt)
               then Inr \<lparr>returned_fp = overallObjective_fp st2, outcome_fp = CONVERGED,
                         final_fp = st2\<rparr>
               else sweeps_fp ar f opt lib (i + 1) st2)"
  by pat_completeness auto

termination sweeps_fp
proof (relation "measure (\<lambda>(ar, f, opt, lib, i, st). unat (maxIterations_fp opt - i))")
  show "wf (measure (\<lambda>(ar, f, opt, lib, i, st). unat (maxIterations_fp opt - i)))"
    by simp
next
  fix ar :: "'a arith" and f :: "'a objective_fp" and opt :: "'a IQN_fp"
    and lib :: "'a armadillo_fp" and i :: "64 word" and st st1 st2 :: "'a state_fp"
  assume "i \<noteq> maxIterations_fp opt"
  then have "maxIterations_fp opt - i \<noteq> 0" by simp
  then have "unat (maxIterations_fp opt - i - 1) < unat (maxIterations_fp opt - i)"
    by (simp add: unat_minus_one unat_gt_0)
  moreover have "maxIterations_fp opt - (i + 1) = maxIterations_fp opt - i - 1" by simp
  ultimately have "unat (maxIterations_fp opt - (i + 1)) < unat (maxIterations_fp opt - i)"
    by (simp only:)
  then show "((ar, f, opt, lib, i + 1, st2), (ar, f, opt, lib, i, st)) \<in>
             measure (\<lambda>(ar, f, opt, lib, i, st). unat (maxIterations_fp opt - i))"
    by simp
qed

definition Optimize_fp ::
  "'a arith \<Rightarrow> 'a objective_fp \<Rightarrow> 'a IQN_fp \<Rightarrow> 'a armadillo_fp \<Rightarrow> 'a fmat \<Rightarrow> error + 'a result_fp" where
  "Optimize_fp ar f opt lib iterate0 =
     (case init_fp ar f lib iterate0 of
        Inl e \<Rightarrow> Inl e
      | Inr st \<Rightarrow> sweeps_fp ar f opt lib 1 st)"

subsection \<open>The iterate of the algorithm\<close>

text \<open>
  The headers of the four matrices that share two buffers: the caller's matrix
  \<^verbatim>\<open>iterate\<close> and the vector \<^verbatim>\<open>iterateVec\<close> over buffer 0, \<^verbatim>\<open>g\<close> and \<^verbatim>\<open>gVec\<close> over
  buffer 1.
\<close>

definition views_fp :: "nat \<Rightarrow> nat \<Rightarrow> 'a state_fp \<Rightarrow> bool" where
  "views_fp r c st \<longleftrightarrow>
     iterate_fp st = \<lparr>v_rows = r, v_cols = c, v_ptr = 0\<rparr>
     \<and> iterateVec_fp st = \<lparr>v_rows = r * c, v_cols = 1, v_ptr = 0\<rparr>
     \<and> g_fp st = \<lparr>v_rows = r, v_cols = c, v_ptr = 1\<rparr>
     \<and> gVec_fp st = \<lparr>v_rows = r * c, v_cols = 1, v_ptr = 1\<rparr>"

text \<open>
  The iterate that the algorithm has reached in a state of the run, as a value of its own
  and not as the content of a buffer: \<open>algorithm_iterate ar f opt lib iterate0 st x\<close> says
  that the run started on the caller's matrix \<open>iterate0\<close> is in state \<open>st\<close> with the
  iterate \<open>x\<close>. The run starts with the caller's matrix as a vector. A step for the
  component \<open>it\<close> leaves the iterate as it is when it has not moved since the component
  was visited, and otherwise replaces it by \<open>stepSize * Bi * (u - gVec) + (1 - stepSize) * x\<close>
  for the inverse \<open>Bi\<close> of the aggregate \<open>B\<close>, with the aggregates of the state after
  the step. Evaluating the objective does not change it.
\<close>

inductive algorithm_iterate ::
  "'a arith \<Rightarrow> 'a objective_fp \<Rightarrow> 'a IQN_fp \<Rightarrow> 'a armadillo_fp \<Rightarrow> 'a fmat \<Rightarrow> 'a state_fp \<Rightarrow> 'a fmat \<Rightarrow> bool"
  for ar :: "'a arith" and f :: "'a objective_fp" and opt :: "'a IQN_fp"
    and lib :: "'a armadillo_fp" and iterate0 :: "'a fmat"
where
  at_start:
    "init_fp ar f lib iterate0 = Inr st \<Longrightarrow>
     algorithm_iterate ar f opt lib iterate0 st (f_vectorise iterate0)"
| not_moved:
    "algorithm_iterate ar f opt lib iterate0 st x \<Longrightarrow>
     \<not> fp_norm_positive ar (f_mem (f_minus ar x (t_fp st ! it))) \<Longrightarrow>
     visit_fp ar f opt lib it st = Inr st' \<Longrightarrow>
     algorithm_iterate ar f opt lib iterate0 st' x"
| moved:
    "algorithm_iterate ar f opt lib iterate0 st x \<Longrightarrow>
     fp_norm_positive ar (f_mem (f_minus ar x (t_fp st ! it))) \<Longrightarrow>
     visit_fp ar f opt lib it st = Inr st' \<Longrightarrow>
     mat_i_fp lib (B_fp st') = Some Bi \<Longrightarrow>
     algorithm_iterate ar f opt lib iterate0 st'
       (f_plus ar
          (f_times ar (f_scale ar (stepSize_fp opt) Bi)
             (f_minus ar (u_fp st') (f_deref (heap_fp st') (gVec_fp st'))))
          (f_scale ar (fp_sub ar (fp_one ar) (stepSize_fp opt)) x))"
| evaluated:
    "algorithm_iterate ar f opt lib iterate0 st x \<Longrightarrow>
     algorithm_iterate ar f opt lib iterate0 (objective_fp ar f i st) x"

subsection \<open>The small instance with exact operations\<close>











section \<open>Facts about matrices\<close>

lemma n_rows_mk [simp]: "n_rows (mk r c f) = r"
  by (simp add: mk_def)

lemma n_cols_mk [simp]: "n_cols (mk r c f) = c"
  by (simp add: mk_def)

lemma length_mem_mk [simp]: "length (mem (mk r c f)) = r * c"
  by (simp add: mk_def)

lemma index_in_range:
  fixes i j r c :: nat
  assumes "i < r" "j < c"
  shows "i + j * r < r * c"
proof -
  have "i + j * r < r + j * r" using assms by simp
  also have "\<dots> = r * Suc j" by simp
  also have "\<dots> \<le> r * c" using assms by (intro mult_le_mono2) simp
  finally show ?thesis .
qed

lemma elem_mk [simp]:
  assumes "i < r" "j < c"
  shows "elem (mk r c f) i j = f i j"
proof -
  have "i + j * r < r * c" using assms by (rule index_in_range)
  then show ?thesis using assms by (simp add: elem_def mk_def)
qed

lemma mk_cong:
  assumes "\<And>i j. i < r \<Longrightarrow> j < c \<Longrightarrow> f i j = h i j"
  shows "mk r c f = mk r c h"
proof -
  have "f (k mod r) (k div r) = h (k mod r) (k div r)" if "k < r * c" for k
  proof -
    from that have "0 < r" by (cases r) simp_all
    moreover from that have "k div r < c"
      by (simp add: less_mult_imp_div_less mult.commute)
    ultimately show ?thesis by (intro assms) simp_all
  qed
  then show ?thesis by (simp add: mk_def)
qed

lemma mk_eq_iff: "mk r c f = mk r c h \<longleftrightarrow> (\<forall>i<r. \<forall>j<c. f i j = h i j)"
proof
  assume eq: "mk r c f = mk r c h"
  show "\<forall>i<r. \<forall>j<c. f i j = h i j"
  proof (intro allI impI)
    fix i j assume "i < r" "j < c"
    then have "elem (mk r c f) i j = f i j" "elem (mk r c h) i j = h i j" by simp_all
    with eq show "f i j = h i j" by simp
  qed
next
  assume "\<forall>i<r. \<forall>j<c. f i j = h i j"
  then show "mk r c f = mk r c h" by (intro mk_cong) simp
qed

lemma mk_elem_self:
  assumes "n_rows A = r" "n_cols A = c" "length (mem A) = r * c"
  shows "mk r c (elem A) = A"
proof -
  have "map (\<lambda>k. mem A ! (k mod r + k div r * r)) [0..<r * c] = mem A"
    using assms by (intro nth_equalityI) simp_all
  then show ?thesis using assms by (simp add: mk_def elem_def)
qed

section \<open>Initialization\<close>

lemma init_loop_append:
  "init_loop f X (as @ bs) v =
     (case init_loop f X as v of Inl e \<Rightarrow> Inl e | Inr v' \<Rightarrow> init_loop f X bs v')"
proof (induction as arbitrary: v)
  case Nil
  show ?case by simp
next
  case (Cons a as)
  obtain ys ts Qs gsum cs where v: "v = (ys, ts, Qs, gsum, cs)" by (cases v) auto
  show ?case unfolding v by (simp add: Let_def Cons.IH)
qed

lemma list_update_tabulate:
  assumes "k < n"
  shows "(map (\<lambda>i. if i < k then a i else b) [0..<n])[k := a k]
         = map (\<lambda>i. if i < Suc k then a i else b) [0..<n]"
  using assms by (intro nth_equalityI) (auto simp: nth_list_update less_Suc_eq)

lemma init_loop_upt:
  assumes "k \<le> n"
  shows "init_loop f X [0..<k]
           (replicate n (zeros r c), replicate n (zeros d 1), replicate n (zeros d d), zeros r c, [])
         = (if \<forall>i<k. sized r c (Gradient f X i)
            then Inr (map (\<lambda>i. if i < k then Gradient f X i else zeros r c) [0..<n],
                      map (\<lambda>i. if i < k then vectorise X else zeros d 1) [0..<n],
                      map (\<lambda>i. if i < k then eye d d else zeros d d) [0..<n],
                      mk r c (\<lambda>a b. sum_list (map (\<lambda>i. elem (Gradient f X i) a b) [0..<k])),
                      map (GradientCall X) [0..<k])
            else Inl ShapeMismatch)"
  using assms
proof (induction k)
  case 0
  have "replicate n v = map (\<lambda>i. v) [0..<n]" for v :: amat
    by (simp add: map_replicate_const)
  then show ?case by (simp add: zeros_def)
next
  case (Suc k)
  then have k: "k < n" by simp
  show ?case
  proof (cases "\<forall>i<k. sized r c (Gradient f X i)")
    case False
    then show ?thesis using Suc.IH k by (auto simp: init_loop_append less_Suc_eq)
  next
    case True
    have sum: "m_plus (mk r c (\<lambda>a b. sum_list (map (\<lambda>i. elem (Gradient f X i) a b) [0..<k])))
                 (Gradient f X k)
               = mk r c (\<lambda>a b. sum_list (map (\<lambda>i. elem (Gradient f X i) a b) [0..<k])
                                + elem (Gradient f X k) a b)"
      by (simp add: m_plus_def mk_eq_iff)
    have upd: "(map (\<lambda>i. if i < k then a i else b) [0..<n])[k := a k]
               = map (\<lambda>i. if i < Suc k then a i else b) [0..<n]" for a :: "nat \<Rightarrow> amat" and b
      using k by (rule list_update_tabulate)
    have nth_k: "map (\<lambda>i. if i < k then a i else b) [0..<n] ! k = b" for a :: "nat \<Rightarrow> amat" and b
      using k by simp
    have nth_k': "map (\<lambda>i. if i < Suc k then a i else b) [0..<n] ! k = a k"
      for a :: "nat \<Rightarrow> amat" and b
      using k by simp
    have start: "init_loop f X [0..<k]
           (replicate n (zeros r c), replicate n (zeros d 1), replicate n (zeros d d), zeros r c, [])
          = Inr (map (\<lambda>i. if i < k then Gradient f X i else zeros r c) [0..<n],
                      map (\<lambda>i. if i < k then vectorise X else zeros d 1) [0..<n],
                      map (\<lambda>i. if i < k then eye d d else zeros d d) [0..<n],
                      mk r c (\<lambda>a b. sum_list (map (\<lambda>i. elem (Gradient f X i) a b) [0..<k])),
                      map (GradientCall X) [0..<k])"
      using Suc.IH k True by simp
    have size0: "same_size A (zeros r c) \<longleftrightarrow> sized r c A" for A
      by (simp add: same_size_def sized_def zeros_def)
    have all: "(\<forall>i<Suc k. sized r c (Gradient f X i)) \<longleftrightarrow> sized r c (Gradient f X k)"
      using True by (auto simp: less_Suc_eq)
    have dims: "n_rows (zeros d d) = d" "n_cols (zeros d d) = d"
      by (simp_all add: zeros_def)
    show ?thesis
      unfolding upt_Suc_append [OF le0] init_loop_append start all
      using upd [of "\<lambda>i. vectorise X"] upd [of "\<lambda>i. eye d d"] upd [of "Gradient f X"]
      by (simp add: Let_def nth_k nth_k' size0 dims sum del: upt_Suc)
  qed
qed

lemma init_eq:
  "init f lib iterate0 =
     (if \<not> (\<forall>i<NumFunctions f. sized (n_rows iterate0) (n_cols iterate0)
               (Gradient f (randn (samples lib) (n_rows iterate0) (n_cols iterate0)) i))
      then Inl ShapeMismatch
      else if NumFunctions f = 0 then Inl IndexOutOfBounds
      else Inr (initial_state f lib iterate0))"
proof -
  have tab: "map (\<lambda>i. if i < n then a i else b) [0..<n] = map a [0..<n]"
    for a :: "nat \<Rightarrow> amat" and b n
    by simp
  have rep: "map (\<lambda>i. v) [0..<n] = replicate n v" for v :: amat and n
    by (simp add: map_replicate_const)
  show ?thesis
    unfolding init_def Let_def init_loop_upt [OF order_refl]
    by (simp add: tab rep initial_state_def slice_sum_def comp_def Let_def)
qed

lemma elem_slice_sum:
  assumes "i < r" "j < c"
  shows "elem (slice_sum r c Ms) i j = sum_list (map (\<lambda>M. elem M i j) Ms)"
  using assms by (simp add: slice_sum_def)

lemma average_eq: "average n r c Ms = mk r c (\<lambda>i j. (1 / real n) * sum_list (map (\<lambda>M. elem M i j) Ms))"
  by (simp add: average_def s_times_def slice_sum_def mk_eq_iff)

lemma m_div_slice_sum: "m_div (slice_sum r c Ms) (real n) = average n r c Ms"
  by (simp add: average_eq m_div_def slice_sum_def mk_eq_iff)

text \<open>
  Claim C4. When there is a component function and every gradient has the size of
  \<open>iterate\<close>, the initialization returns a state in which, for every component \<open>i\<close>,
  the stored point is the random matrix drawn by \<open>randn\<close> (as a vector, and whatever the
  caller's \<open>iterate\<close> holds), the stored curvature is the identity and the stored gradient
  is the gradient of component \<open>i\<close> at the random matrix; the objective has been called
  exactly for these \<open>n\<close> gradients; the aggregate gradient is the mean of the stored
  gradients, the aggregate curvature is the identity and the aggregate Hessian-variable
  product is the random matrix as a vector. The caller's matrix is not written.
\<close>

theorem init_records_and_aggregates:
  fixes f :: decomposable and lib :: armadillo and iterate0 :: amat
  defines "n \<equiv> NumFunctions f"
    and "X \<equiv> randn (samples lib) (n_rows iterate0) (n_cols iterate0)"
    and "d \<equiv> n_elem iterate0"
  assumes "0 < n"
    and "\<forall>i<n. sized (n_rows iterate0) (n_cols iterate0) (Gradient f X i)"
  shows "\<exists>st. init f lib iterate0 = Inr st
           \<and> length (t st) = n \<and> length (Q st) = n \<and> length (y st) = n
           \<and> (\<forall>i<n. t st ! i = vectorise X \<and> Q st ! i = eye d d \<and> y st ! i = Gradient f X i)
           \<and> calls st = map (GradientCall X) [0..<n]
           \<and> deref (heap st) (g st) = average n (n_rows iterate0) (n_cols iterate0) (y st)
           \<and> B st = eye d d
           \<and> u st = vectorise X
           \<and> deref (heap st) (iterate st) = iterate0"
proof -
  let ?st = "initial_state f lib iterate0"
  have "init f lib iterate0 = Inr ?st"
    using assms by (simp add: init_eq)
  moreover have "deref (heap ?st) (g ?st) = average n (n_rows iterate0) (n_cols iterate0) (y ?st)"
    unfolding m_div_slice_sum [symmetric]
    by (simp add: deref_def initial_state_def Let_def n_def X_def m_div_def slice_sum_def mk_def)
  moreover have "length (t ?st) = n" "length (Q ?st) = n" "length (y ?st) = n"
    "calls ?st = map (GradientCall X) [0..<n]" "B ?st = eye d d" "u ?st = vectorise X"
    "\<forall>i<n. t ?st ! i = vectorise X \<and> Q ?st ! i = eye d d \<and> y ?st ! i = Gradient f X i"
    "deref (heap ?st) (iterate ?st) = iterate0"
    by (simp_all add: initial_state_def Let_def n_def X_def d_def deref_def)
  ultimately show ?thesis by blast
qed

theorem init_records_and_aggregates_witness:
  "0 < NumFunctions two_quadratics
   \<and> sized (n_rows start3) (n_cols start3)
         (Gradient two_quadratics (randn (samples scalar_lib) (n_rows start3) (n_cols start3)) 0)
   \<and> sized (n_rows start3) (n_cols start3)
         (Gradient two_quadratics (randn (samples scalar_lib) (n_rows start3) (n_cols start3)) 1)
   \<and> (\<exists>st. init two_quadratics scalar_lib start3 = Inr st
         \<and> length (t st) = NumFunctions two_quadratics
         \<and> calls st = map (GradientCall (randn (samples scalar_lib) (n_rows start3) (n_cols start3)))
                        [0..<NumFunctions two_quadratics]
         \<and> B st = eye (n_elem start3) (n_elem start3)
         \<and> u st = vectorise (randn (samples scalar_lib) (n_rows start3) (n_cols start3)))"
proof -
  have n: "0 < NumFunctions two_quadratics" by (simp add: two_quadratics_def)
  have sz: "\<forall>i<NumFunctions two_quadratics. sized (n_rows start3) (n_cols start3)
         (Gradient two_quadratics (randn (samples scalar_lib) (n_rows start3) (n_cols start3)) i)"
    by (simp add: two_quadratics_def sized_def start3_def randn_def)
  have "sized (n_rows start3) (n_cols start3)
          (Gradient two_quadratics (randn (samples scalar_lib) (n_rows start3) (n_cols start3)) i)"
    for i
    by (simp add: two_quadratics_def sized_def start3_def randn_def)
  then show ?thesis
    using n init_records_and_aggregates [OF n sz] by blast
qed

section \<open>The run on the small instance\<close>

lemmas instance_defs = mk_def elem_def n_elem_def zeros_def eye_def randn_def m_plus_def m_minus_def s_times_def m_div_def
  m_times_def m_t_def vectorise_def as_scalar_def norm2_def same_size_def deref_def stochasticHessian_def newton_def
  two_quadratics_def scalar_lib_def start3_def full_step_def Let_def selected_def slice_sum_def
  scalar_def scalar_view_def fun_eq_iff

lemma run_init: "init two_quadratics scalar_lib start3 = Inr run_a"
proof -
  have "initial_state two_quadratics scalar_lib start3 = run_a"
    by (simp add: initial_state_def run_a_def instance_defs numeral_2_eq_2)
  moreover have "init two_quadratics scalar_lib start3
                 = Inr (initial_state two_quadratics scalar_lib start3)"
    by (simp add: init_eq sized_def two_quadratics_def randn_def)
  ultimately show ?thesis by simp
qed

lemma run_step_a: "inner_step two_quadratics full_step scalar_lib 0 run_a = Inr run_b"
  by (simp add: inner_step_def visit_def run_a_def run_b_def instance_defs)

lemma run_step_b: "inner_step two_quadratics full_step scalar_lib 1 run_b = Inr run_c"
  by (simp add: inner_step_def visit_def run_a_def run_b_def run_c_def instance_defs)

lemma run_objective: "objective two_quadratics 1 run_c = run_c_obj"
  by (simp add: objective_def mean_objective_def run_a_def run_b_def run_c_def run_c_obj_def instance_defs numeral_2_eq_2)

lemma run_step_c: "inner_step two_quadratics full_step scalar_lib 0 run_c_obj = Inr run_d"
  by (simp add: inner_step_def visit_def run_a_def run_b_def run_c_def run_c_obj_def run_d_def instance_defs)

lemma run_step_d: "inner_step two_quadratics full_step scalar_lib 1 run_d = Inr run_d"
  by (simp add: inner_step_def visit_def run_a_def run_b_def run_c_def run_c_obj_def run_d_def instance_defs)

section \<open>The order of the visits\<close>





section \<open>Steps that are skipped\<close>

lemma m_minus_self: "m_minus A A = zeros (n_rows A) (n_cols A)"
  by (simp add: m_minus_def zeros_def)

lemma norm2_zeros: "norm2 (zeros r c) = 0"
proof -
  have "sum_list (map (\<lambda>x. x * x) (map (\<lambda>k. 0::real) xs)) = 0" for xs :: "nat list"
    by (induction xs) simp_all
  then show ?thesis by (simp add: norm2_def zeros_def mk_def)
qed

text \<open>
  Claim C6. An inner step at which the current iterate (read through \<open>iterateVec\<close>)
  equals the point stored for the selected component returns the state it was given:
  no call to the objective, no write to the memory store, to the aggregates or to the
  iterate.
\<close>

theorem skip_idempotence:
  assumes "deref (heap st) (iterateVec st) = t st ! selected (NumFunctions f) j"
  shows "inner_step f opt lib j st = Inr st"
  using assms by (simp add: inner_step_def visit_def Let_def m_minus_self norm2_zeros)

theorem skip_idempotence_witness:
  "deref (heap run_d) (iterateVec run_d) = t run_d ! selected (NumFunctions two_quadratics) 1
   \<and> inner_step two_quadratics full_step scalar_lib 1 run_d = Inr run_d"
proof -
  have eq: "deref (heap run_d) (iterateVec run_d)
            = t run_d ! selected (NumFunctions two_quadratics) 1"
    by (simp add: run_d_def run_c_obj_def run_c_def run_b_def run_a_def instance_defs)
  show ?thesis using eq skip_idempotence [OF eq] by simp
qed

section \<open>The budget of sweeps\<close>

declare sweeps.simps [simp del]

lemma init_success:
  assumes "0 < NumFunctions f"
    and "\<forall>i<NumFunctions f. sized (n_rows iterate0) (n_cols iterate0)
           (Gradient f (randn (samples lib) (n_rows iterate0) (n_cols iterate0)) i)"
  shows "init f lib iterate0 = Inr (initial_state f lib iterate0)"
  using assms by (simp add: init_eq)

text \<open>
  Claim C10. With \<open>maxIterations = 1\<close> (and an initialization that does not throw),
  \<open>Optimize\<close> returns 0, the initial value of \<open>overallObjective\<close>, with the message
  of the exhausted budget, in the state the initialization built: no sweep has been logged,
  the only calls to the objective are the \<open>n\<close> gradients of the initialization, and the
  caller's matrix holds what it held on entry.
\<close>

theorem max_iterations_one:
  assumes "maxIterations opt = 1"
    and "0 < NumFunctions f"
    and "\<forall>i<NumFunctions f. sized (n_rows iterate0) (n_cols iterate0)
           (Gradient f (randn (samples lib) (n_rows iterate0) (n_cols iterate0)) i)"
  shows "\<exists>res. Optimize f opt lib iterate0 = Inr res
           \<and> returned res = Fin 0
           \<and> outcome res = MAX_ITERATIONS_REACHED
           \<and> final res = initial_state f lib iterate0
           \<and> info (final res) = []
           \<and> calls (final res)
               = map (GradientCall (randn (samples lib) (n_rows iterate0) (n_cols iterate0)))
                   [0..<NumFunctions f]
           \<and> deref (heap (final res)) (iterate (final res)) = iterate0"
proof -
  let ?st = "initial_state f lib iterate0"
  have "init f lib iterate0 = Inr ?st"
    using assms(2,3) by (rule init_success)
  moreover have "sweeps f opt lib 1 ?st
        = Inr \<lparr>returned = overallObjective ?st, outcome = MAX_ITERATIONS_REACHED, final = ?st\<rparr>"
    using assms(1) by (simp add: sweeps.simps)
  ultimately have "Optimize f opt lib iterate0
        = Inr \<lparr>returned = overallObjective ?st, outcome = MAX_ITERATIONS_REACHED, final = ?st\<rparr>"
    by (simp add: Optimize_def)
  moreover have "overallObjective ?st = Fin 0" "info ?st = []"
    "calls ?st = map (GradientCall (randn (samples lib) (n_rows iterate0) (n_cols iterate0)))
                   [0..<NumFunctions f]"
    "deref (heap ?st) (iterate ?st) = iterate0"
    by (simp_all add: initial_state_def Let_def deref_def)
  ultimately show ?thesis by simp
qed

theorem max_iterations_one_witness:
  "maxIterations one_iteration = 1
   \<and> 0 < NumFunctions two_quadratics
   \<and> (\<exists>res. Optimize two_quadratics one_iteration scalar_lib start3 = Inr res
         \<and> returned res = Fin 0
         \<and> outcome res = MAX_ITERATIONS_REACHED
         \<and> info (final res) = []
         \<and> deref (heap (final res)) (iterate (final res)) = start3)"
proof -
  have m: "maxIterations one_iteration = 1" by (simp add: one_iteration_def)
  have n: "0 < NumFunctions two_quadratics" by (simp add: two_quadratics_def)
  have sz: "\<forall>i<NumFunctions two_quadratics. sized (n_rows start3) (n_cols start3)
         (Gradient two_quadratics (randn (samples scalar_lib) (n_rows start3) (n_cols start3)) i)"
    by (simp add: two_quadratics_def sized_def start3_def randn_def)
  show ?thesis
    using m n max_iterations_one [OF m n sz] by blast
qed

text \<open>
  Claim C3 does not hold of the code: with \<open>maxIterations = 1\<close> and \<open>tolerance = 0\<close> the
  loop of line 67 starts its counter at 1, finds it equal to \<open>maxIterations\<close> at once
  and runs no sweep. On the small instance the run returns from the state of the
  initialization, having logged no sweep and called nothing but the two gradients of the
  initialization.
\<close>

theorem one_iteration_runs_no_sweep:
  "Optimize two_quadratics one_iteration scalar_lib start3
     = Inr \<lparr>returned = Fin 0, outcome = MAX_ITERATIONS_REACHED, final = run_a\<rparr>
   \<and> info run_a = []
   \<and> calls run_a = [GradientCall (scalar 0) 0, GradientCall (scalar 0) 1]
   \<and> heap run_a 0 = [3]"
proof -
  have "maxIterations one_iteration = 1"
    by (simp add: one_iteration_def)
  then have "sweeps two_quadratics one_iteration scalar_lib 1 run_a
        = Inr \<lparr>returned = overallObjective run_a, outcome = MAX_ITERATIONS_REACHED, final = run_a\<rparr>"
    by (subst sweeps.simps) simp
  moreover have "overallObjective run_a = Fin 0"
    by (simp add: run_a_def)
  ultimately have "Optimize two_quadratics one_iteration scalar_lib start3
        = Inr \<lparr>returned = Fin 0, outcome = MAX_ITERATIONS_REACHED, final = run_a\<rparr>"
    by (simp add: Optimize_def run_init)
  moreover have "info run_a = []"
    "calls run_a = [GradientCall (scalar 0) 0, GradientCall (scalar 0) 1]"
    "heap run_a 0 = [3]"
    by (simp_all add: run_a_def)
  ultimately show ?thesis by simp
qed

section \<open>The two cases of an inner step\<close>

lemma visit_skip: "\<not> updates st it \<Longrightarrow> visit f opt lib it st = Inr st"
  by (simp add: visit_def updates_def secant_s_def cur_iterate_def Let_def)

lemma visit_update:
  assumes "updates st it"
  shows "visit f opt lib it st =
     (if \<not> same_size (new_gradient f st it) (y st ! it) then Inl ShapeMismatch
      else if as_scalar (m_times (m_t (secant_y f st it)) (secant_s st it)) = 0
              \<or> as_scalar (m_times (m_times (m_t (secant_s st it)) (Q st ! it)) (secant_s st it)) = 0
      then Inl NonFinite
      else case mat_i lib (new_B f st it) of
             None \<Rightarrow> Inl SingularMatrix
           | Some Bi \<Rightarrow>
               if n_cols Bi \<noteq> n_rows (new_u f st it) \<or> n_rows Bi \<noteq> n_rows (cur_iterate st)
                  \<or> n_cols (new_u f st it) \<noteq> n_cols (cur_iterate st)
               then Inl ShapeMismatch
               else Inr (updated f opt Bi it st))"
  using assms
  by (simp add: visit_def updates_def secant_s_def cur_iterate_def Let_def new_gradient_def
      secant_y_def new_Q_def new_B_def new_u_def new_g_def updated_def split: option.splits)

lemma visit_Inr:
  assumes "visit f opt lib it st = Inr st'"
  shows "(\<not> updates st it \<and> st' = st)
         \<or> (updates st it
            \<and> same_size (new_gradient f st it) (y st ! it)
            \<and> as_scalar (m_times (m_t (secant_y f st it)) (secant_s st it)) \<noteq> 0
            \<and> as_scalar (m_times (m_times (m_t (secant_s st it)) (Q st ! it)) (secant_s st it)) \<noteq> 0
            \<and> (\<exists>Bi. mat_i lib (new_B f st it) = Some Bi
                    \<and> n_cols Bi = n_rows (new_u f st it)
                    \<and> n_rows Bi = n_rows (cur_iterate st)
                    \<and> n_cols (new_u f st it) = n_cols (cur_iterate st)
                    \<and> st' = updated f opt Bi it st))"
proof (cases "updates st it")
  case False
  then show ?thesis using assms by (simp add: visit_skip)
next
  case True
  then show ?thesis
    using assms by (auto simp: visit_update split: if_splits option.splits)
qed

section \<open>Averages and their incremental update\<close>

lemma sized_mk [simp]: "sized r c (mk r' c' h) \<longleftrightarrow> r' = r \<and> c' = c"
  by (auto simp: sized_def)

lemma shape_simps [simp]:
  "n_rows (m_plus A X) = n_rows A" "n_cols (m_plus A X) = n_cols A"
  "n_rows (m_minus A X) = n_rows A" "n_cols (m_minus A X) = n_cols A"
  "n_rows (s_times a A) = n_rows A" "n_cols (s_times a A) = n_cols A"
  "n_rows (m_div A a) = n_rows A" "n_cols (m_div A a) = n_cols A"
  "n_rows (m_times A X) = n_rows A" "n_cols (m_times A X) = n_cols X"
  "n_rows (m_t A) = n_cols A" "n_cols (m_t A) = n_rows A"
  "n_rows (eye r c) = r" "n_cols (eye r c) = c"
  "n_rows (zeros r c) = r" "n_cols (zeros r c) = c"
  "n_rows (average n r c Ms) = r" "n_cols (average n r c Ms) = c"
  "n_rows (deref h v) = v_rows v" "n_cols (deref h v) = v_cols v"
  "n_rows (vectorise A) = n_rows A * n_cols A" "n_cols (vectorise A) = 1"
  by (simp_all add: m_plus_def m_minus_def s_times_def m_div_def m_times_def m_t_def eye_def
      zeros_def average_def slice_sum_def deref_def vectorise_def n_elem_def)

lemma elem_simps:
  assumes "i < n_rows A" "j < n_cols A"
  shows "elem (m_plus A X) i j = elem A i j + elem X i j"
    and "elem (m_minus A X) i j = elem A i j - elem X i j"
    and "elem (s_times a A) i j = a * elem A i j"
    and "elem (m_div A a) i j = elem A i j / a"
  using assms by (simp_all add: m_plus_def m_minus_def s_times_def m_div_def)

lemma sum_list_map_update:
  fixes h :: "'a \<Rightarrow> real"
  assumes "k < length xs"
  shows "sum_list (map h (xs[k := x])) = sum_list (map h xs) - h (xs ! k) + h x"
  using assms
proof (induction xs arbitrary: k)
  case Nil
  then show ?case by simp
next
  case (Cons a xs)
  then show ?case by (cases k) simp_all
qed

lemma elem_average:
  assumes "i < r" "j < c"
  shows "elem (average n r c Ms) i j = (1 / real n) * sum_list (map (\<lambda>M. elem M i j) Ms)"
  using assms by (simp add: average_eq)

lemma average_update:
  assumes "k < length Ms" and "sized r c (Ms ! k)" and "sized r c X"
  shows "m_plus (average n r c Ms) (s_times (1 / real n) (m_minus X (Ms ! k)))
         = average n r c (Ms[k := X])"
proof -
  have rows: "n_rows X = r" "n_cols X = c" using assms(3) by (simp_all add: sized_def)
  have "m_plus (average n r c Ms) (s_times (1 / real n) (m_minus X (Ms ! k)))
        = mk r c (\<lambda>i j. (1 / real n) * sum_list (map (\<lambda>M. elem M i j) Ms)
                        + (1 / real n) * (elem X i j - elem (Ms ! k) i j))"
    unfolding m_plus_def
    by (simp add: mk_eq_iff elem_average elem_simps rows)
  also have "\<dots> = mk r c (\<lambda>i j. (1 / real n) * sum_list (map (\<lambda>M. elem M i j) (Ms[k := X])))"
    using assms(1) by (simp add: mk_eq_iff sum_list_map_update algebra_simps)
  also have "\<dots> = average n r c (Ms[k := X])"
    by (simp add: average_eq)
  finally show ?thesis .
qed

lemma deref_sized:
  assumes "sized (v_rows v) (v_cols v) A" and "h (v_ptr v) = mem A"
  shows "deref h v = A"
  using assms by (simp add: deref_def sized_def)

section \<open>What an updating step preserves\<close>

lemma list_all_update:
  assumes "list_all P xs" and "P x"
  shows "list_all P (xs[k := x])"
  using assms set_update_subset_insert [of xs k x] by (auto simp: list_all_iff)

lemma list_all_nth: "list_all P xs \<Longrightarrow> k < length xs \<Longrightarrow> P (xs ! k)"
  by (simp add: list_all_length)

lemma map2_update:
  "map2 h (xs[k := a]) (ys[k := b]) = (map2 h xs ys)[k := h a b]"
  by (simp add: zip_update map_update)

lemma sized_new_Q:
  assumes "sized d d (Q st ! it)"
  shows "sized d d (new_Q f st it)"
  using assms by (simp add: new_Q_def stochasticHessian_def sized_def)

lemma same_size_sized: "same_size A X \<Longrightarrow> sized r c X \<Longrightarrow> sized r c A"
  by (simp add: same_size_def sized_def)

lemma shapes_updated:
  assumes ok: "shapes_ok f r c st"
    and it: "it < NumFunctions f"
    and size: "same_size (new_gradient f st it) (y st ! it)"
  shows "shapes_ok f r c (updated f opt Bi it st)"
proof -
  from ok it have slices: "sized r c (y st ! it)" "sized (r * c) (r * c) (Q st ! it)"
    by (simp_all add: shapes_ok_def list_all_nth)
  have grad: "sized r c (new_gradient f st it)"
    using size slices(1) by (rule same_size_sized)
  have cur: "sized (r * c) 1 (cur_iterate st)"
    using ok by (simp add: shapes_ok_def cur_iterate_def sized_def)
  have newQ: "sized (r * c) (r * c) (new_Q f st it)"
    using slices(2) by (rule sized_new_Q)
  have "list_all (sized r c) ((y st)[it := new_gradient f st it])"
    "list_all (sized (r * c) 1) ((t st)[it := cur_iterate st])"
    "list_all (sized (r * c) (r * c)) ((Q st)[it := new_Q f st it])"
    using ok grad cur newQ by (simp_all add: shapes_ok_def list_all_update)
  moreover have "sized (r * c) (r * c) (new_B f st it)" "sized (r * c) 1 (new_u f st it)"
    using ok by (simp_all add: shapes_ok_def new_B_def new_u_def sized_def)
  ultimately show ?thesis
    using ok by (simp add: shapes_ok_def updated_def Let_def)
qed

lemma consistent_updated:
  assumes ok: "shapes_ok f r c st"
    and cons: "aggregate_consistent f st"
    and it: "it < NumFunctions f"
    and size: "same_size (new_gradient f st it) (y st ! it)"
  shows "aggregate_consistent f (updated f opt Bi it st)"
proof -
  let ?n = "NumFunctions f" and ?d = "r * c"
  from ok have views: "iterate st = \<lparr>v_rows = r, v_cols = c, v_ptr = 0\<rparr>"
    "iterateVec st = \<lparr>v_rows = ?d, v_cols = 1, v_ptr = 0\<rparr>"
    "g st = \<lparr>v_rows = r, v_cols = c, v_ptr = 1\<rparr>"
    and len: "length (y st) = ?n" "length (t st) = ?n" "length (Q st) = ?n"
    by (simp_all add: shapes_ok_def)
  from ok it have slices: "sized r c (y st ! it)" "sized ?d ?d (Q st ! it)"
    "sized ?d 1 (t st ! it)"
    by (simp_all add: shapes_ok_def list_all_nth)
  from cons views have agg: "B st = average ?n ?d ?d (Q st)"
    "deref (heap st) (g st) = average ?n r c (y st)"
    "u st = average ?n ?d 1 (map2 m_times (Q st) (t st))"
    by (simp_all add: aggregate_consistent_def Let_def)
  have grad: "sized r c (new_gradient f st it)"
    using size slices(1) by (rule same_size_sized)
  have newQ: "sized ?d ?d (new_Q f st it)"
    using slices(2) by (rule sized_new_Q)
  have B': "new_B f st it = average ?n ?d ?d ((Q st)[it := new_Q f st it])"
    unfolding new_B_def agg(1)
    using it len slices newQ by (intro average_update) simp_all
  have g': "new_g f st it = average ?n r c ((y st)[it := new_gradient f st it])"
    unfolding new_g_def agg(2)
    using it len slices grad by (intro average_update) simp_all
  have prod: "map2 m_times (Q st) (t st) ! it = m_times (Q st ! it) (t st ! it)"
    using it len by simp
  have "sized ?d 1 (m_times (new_Q f st it) (cur_iterate st))"
    using newQ views by (simp add: sized_def cur_iterate_def)
  moreover have "sized ?d 1 (map2 m_times (Q st) (t st) ! it)"
    using slices by (simp add: prod sized_def)
  ultimately have "m_plus (average ?n ?d 1 (map2 m_times (Q st) (t st)))
          (s_times (1 / real ?n)
             (m_minus (m_times (new_Q f st it) (cur_iterate st)) (map2 m_times (Q st) (t st) ! it)))
        = average ?n ?d 1 ((map2 m_times (Q st) (t st))[it := m_times (new_Q f st it) (cur_iterate st)])"
    using it len by (intro average_update) simp_all
  then have u': "new_u f st it
        = average ?n ?d 1 (map2 m_times ((Q st)[it := new_Q f st it]) ((t st)[it := cur_iterate st]))"
    by (simp add: new_u_def agg(3) prod map2_update)
  have "deref (heap (updated f opt Bi it st)) (g st) = new_g f st it"
    by (rule deref_sized) (simp_all add: views g' updated_def Let_def sized_def)
  then show ?thesis
    using views B' g' u' by (simp add: aggregate_consistent_def updated_def Let_def)
qed

section \<open>The invariant of a run\<close>

lemma sum_list_upt: "sum_list (map h [0..<n]) = (\<Sum>k<n. h k)" for h :: "nat \<Rightarrow> real"
  by (simp add: interv_sum_list_conv_sum_set_nat atLeast0LessThan)

lemma elem_m_times:
  assumes "i < n_rows A" "j < n_cols X"
  shows "elem (m_times A X) i j = (\<Sum>k<n_cols A. elem A i k * elem X k j)"
  using assms by (simp add: m_times_def sum_list_upt)

lemma elem_eye: "i < r \<Longrightarrow> j < c \<Longrightarrow> elem (eye r c) i j = (if i = j then 1 else 0)"
  by (simp add: eye_def)

lemma elem_eye_times:
  assumes "i < d" "j < n_cols X"
  shows "elem (m_times (eye d d) X) i j = elem X i j"
proof -
  have "elem (m_times (eye d d) X) i j = (\<Sum>k<d. elem (eye d d) i k * elem X k j)"
    using assms by (simp add: elem_m_times)
  also have "\<dots> = (\<Sum>k<d. if k = i then elem X k j else 0)"
    using assms by (intro sum.cong) (auto simp: elem_eye)
  also have "\<dots> = elem X i j"
    using assms by simp
  finally show ?thesis .
qed

lemma average_replicate:
  assumes "0 < n"
  shows "average n r c (replicate n A) = mk r c (elem A)"
  using assms by (simp add: average_eq mk_eq_iff sum_list_replicate)

lemma shapes_initial:
  assumes "\<forall>i<NumFunctions f. sized (n_rows iterate0) (n_cols iterate0)
             (Gradient f (randn (samples lib) (n_rows iterate0) (n_cols iterate0)) i)"
  shows "shapes_ok f (n_rows iterate0) (n_cols iterate0) (initial_state f lib iterate0)"
  using assms
  by (simp add: shapes_ok_def initial_state_def Let_def n_elem_def list_all_iff sized_def randn_def
      vectorise_def)

lemma consistent_initial:
  assumes "0 < NumFunctions f"
  shows "aggregate_consistent f (initial_state f lib iterate0)"
proof -
  let ?n = "NumFunctions f" and ?r = "n_rows iterate0" and ?c = "n_cols iterate0"
  let ?d = "n_elem iterate0"
  let ?X = "randn (samples lib) ?r ?c"
  let ?st = "initial_state f lib iterate0"
  have "average ?n ?d ?d (replicate ?n (eye ?d ?d)) = eye ?d ?d"
    using assms by (simp add: average_replicate eye_def mk_eq_iff)
  then have B: "B ?st = average ?n ?d ?d (Q ?st)"
    by (simp add: initial_state_def Let_def)
  have "deref (heap ?st) (g ?st) = m_div (slice_sum ?r ?c (y ?st)) (real ?n)"
    by (simp add: deref_def initial_state_def Let_def m_div_def slice_sum_def mk_def)
  then have g: "deref (heap ?st) (g ?st) = average ?n ?r ?c (y ?st)"
    by (simp add: m_div_slice_sum)
  have "map2 m_times (replicate ?n (eye ?d ?d)) (replicate ?n (vectorise ?X))
        = replicate ?n (m_times (eye ?d ?d) (vectorise ?X))"
    by (simp add: zip_replicate)
  then have "average ?n ?d 1 (map2 m_times (Q ?st) (t ?st))
             = mk ?d 1 (elem (m_times (eye ?d ?d) (vectorise ?X)))"
    using assms by (simp add: initial_state_def Let_def average_replicate)
  also have "\<dots> = mk ?d 1 (elem (vectorise ?X))"
    by (intro mk_cong) (simp add: elem_eye_times)
  also have "\<dots> = vectorise ?X"
    by (intro mk_elem_self) (simp_all add: vectorise_def randn_def n_elem_def)
  finally have u: "u ?st = average ?n ?d 1 (map2 m_times (Q ?st) (t ?st))"
    by (simp add: initial_state_def Let_def)
  have "v_rows (iterate ?st) = ?r" "v_cols (iterate ?st) = ?c" "v_rows (iterateVec ?st) = ?d"
    by (simp_all add: initial_state_def Let_def)
  then show ?thesis
    using B g u by (simp add: aggregate_consistent_def Let_def)
qed

lemma init_Inr:
  assumes "init f lib iterate0 = Inr st"
  shows "st = initial_state f lib iterate0" and "0 < NumFunctions f"
    and "\<forall>i<NumFunctions f. sized (n_rows iterate0) (n_cols iterate0)
             (Gradient f (randn (samples lib) (n_rows iterate0) (n_cols iterate0)) i)"
  using assms by (auto simp: init_eq split: if_splits)

lemma objective_fields [simp]:
  "heap (objective f i st) = heap st" "iterate (objective f i st) = iterate st"
  "iterateVec (objective f i st) = iterateVec st" "g (objective f i st) = g st"
  "gVec (objective f i st) = gVec st" "y (objective f i st) = y st"
  "t (objective f i st) = t st" "Q (objective f i st) = Q st"
  "B (objective f i st) = B st" "u (objective f i st) = u st"
  by (simp_all add: objective_def Let_def)

lemma shapes_objective [simp]: "shapes_ok f r c (objective f' i st) = shapes_ok f r c st"
  by (simp add: shapes_ok_def)

lemma consistent_objective [simp]:
  "aggregate_consistent f (objective f' i st) = aggregate_consistent f st"
  by (simp add: aggregate_consistent_def)

lemma reachable_invariant:
  assumes "reachable f opt lib iterate0 st"
  shows "0 < NumFunctions f \<and> shapes_ok f (n_rows iterate0) (n_cols iterate0) st
         \<and> aggregate_consistent f st"
  using assms
proof (induction rule: reachable.induct)
  case (after_init st)
  then show ?case
    using init_Inr [OF after_init] by (simp add: shapes_initial consistent_initial)
next
  case (after_step st j st')
  let ?it = "selected (NumFunctions f) j"
  have it: "?it < NumFunctions f"
    using after_step.IH by (simp add: selected_def)
  from after_step.hyps(3) have "visit f opt lib ?it st = Inr st'"
    by (simp add: inner_step_def)
  from visit_Inr [OF this] show ?case
    using after_step.IH it by (auto intro: shapes_updated consistent_updated)
next
  case (after_objective st i)
  then show ?case by simp
qed

section \<open>The rank-two update\<close>

lemma elem_m_t: "i < n_cols A \<Longrightarrow> j < n_rows A \<Longrightarrow> elem (m_t A) i j = elem A j i"
  by (simp add: m_t_def)

lemma as_scalar_dot:
  assumes "sized d 1 a" "sized d 1 b"
  shows "as_scalar (m_times (m_t a) b) = (\<Sum>k<d. elem a k 0 * elem b k 0)"
  using assms by (simp add: as_scalar_def sized_def elem_m_times elem_m_t)

lemma elem_row_times:
  assumes "sized d 1 s" "sized d d A" "k < d"
  shows "elem (m_times (m_t s) A) 0 k = (\<Sum>m<d. elem s m 0 * elem A m k)"
  using assms by (simp add: sized_def elem_m_times elem_m_t)

lemma as_scalar_quadratic:
  assumes "sized d 1 s" "sized d d A"
  shows "as_scalar (m_times (m_times (m_t s) A) s)
         = (\<Sum>k<d. (\<Sum>m<d. elem s m 0 * elem A m k) * elem s k 0)"
proof -
  have "as_scalar (m_times (m_times (m_t s) A) s)
        = (\<Sum>k<d. elem (m_times (m_t s) A) 0 k * elem s k 0)"
    using assms by (simp add: as_scalar_def sized_def elem_m_times)
  also have "\<dots> = (\<Sum>k<d. (\<Sum>m<d. elem s m 0 * elem A m k) * elem s k 0)"
    using assms by (intro sum.cong) (simp_all add: elem_row_times)
  finally show ?thesis .
qed

lemma elem_outer:
  assumes "sized d 1 a" "sized d 1 b" "i < d" "j < d"
  shows "elem (m_times a (m_t b)) i j = elem a i 0 * elem b j 0"
  using assms by (simp add: sized_def elem_m_times elem_m_t)

lemma elem_times_column:
  assumes "sized d d A" "sized d 1 s" "i < d"
  shows "elem (m_times A s) i 0 = (\<Sum>m<d. elem A i m * elem s m 0)"
  using assms by (simp add: sized_def elem_m_times)

lemma elem_correction:
  assumes "sized d d A" "sized d 1 s" "i < d" "j < d"
  shows "elem (m_times (m_times (m_times A s) (m_t s)) A) i j
         = (\<Sum>m<d. elem A i m * elem s m 0) * (\<Sum>m<d. elem s m 0 * elem A m j)"
proof -
  have As: "sized d 1 (m_times A s)" using assms by (simp add: sized_def)
  have "elem (m_times (m_times (m_times A s) (m_t s)) A) i j
        = (\<Sum>k<d. elem (m_times (m_times A s) (m_t s)) i k * elem A k j)"
    using assms by (simp add: sized_def elem_m_times)
  also have "\<dots> = (\<Sum>k<d. (elem (m_times A s) i 0 * elem s k 0) * elem A k j)"
    using assms As by (intro sum.cong) (simp_all add: elem_outer)
  also have "\<dots> = elem (m_times A s) i 0 * (\<Sum>k<d. elem s k 0 * elem A k j)"
    by (simp add: sum_distrib_left mult.assoc)
  finally show ?thesis using assms by (simp add: elem_times_column)
qed

lemma elem_stochasticHessian:
  assumes "sized d d A" "sized d 1 s" "sized d 1 yy" "i < d" "j < d"
  shows "elem (stochasticHessian A s yy) i j
         = elem A i j
           + elem yy i 0 * elem yy j 0 / as_scalar (m_times (m_t yy) s)
           - (\<Sum>m<d. elem A i m * elem s m 0) * (\<Sum>m<d. elem s m 0 * elem A m j)
             / as_scalar (m_times (m_times (m_t s) A) s)"
proof -
  have dims: "n_rows A = d" "n_cols A = d" "n_rows s = d" "n_cols s = 1" "n_rows yy = d" "n_cols yy = 1"
    using assms by (simp_all add: sized_def)
  show ?thesis
    unfolding stochasticHessian_def
    using assms by (simp add: elem_simps dims elem_outer elem_correction)
qed

lemma sized_stochasticHessian:
  "sized d d A \<Longrightarrow> sized d d (stochasticHessian A s yy)"
  by (simp add: stochasticHessian_def sized_def)

lemma stochasticHessian_secant:
  assumes sz: "sized d d A" "sized d 1 s" "sized d 1 yy"
    and wf: "length (mem yy) = d"
    and a: "as_scalar (m_times (m_t yy) s) \<noteq> 0"
    and b: "as_scalar (m_times (m_times (m_t s) A) s) \<noteq> 0"
  shows "m_times (stochasticHessian A s yy) s = yy"
proof -
  let ?H = "stochasticHessian A s yy"
  let ?a = "as_scalar (m_times (m_t yy) s)" and ?b = "as_scalar (m_times (m_times (m_t s) A) s)"
  let ?q = "\<lambda>i. \<Sum>m<d. elem A i m * elem s m 0"
  let ?p = "\<lambda>k. \<Sum>m<d. elem s m 0 * elem A m k"
  have dims: "n_rows ?H = d" "n_cols ?H = d" "n_rows s = d" "n_cols s = 1"
    "n_rows yy = d" "n_cols yy = 1"
    using sz sized_stochasticHessian [OF sz(1), of s yy] by (simp_all add: sized_def)
  have row: "elem (m_times ?H s) i 0 = elem yy i 0" if i: "i < d" for i
  proof -
    have "elem (m_times ?H s) i 0 = (\<Sum>k<d. elem ?H i k * elem s k 0)"
      using i dims by (simp add: elem_m_times)
    also have "\<dots> = (\<Sum>k<d. elem A i k * elem s k 0
                            + elem yy i 0 * (elem yy k 0 * elem s k 0) / ?a
                            - ?q i * (?p k * elem s k 0) / ?b)"
      using i sz by (intro sum.cong) (simp_all add: elem_stochasticHessian algebra_simps diff_divide_distrib add_divide_distrib)
    also have "\<dots> = ?q i + elem yy i 0 * (\<Sum>k<d. elem yy k 0 * elem s k 0) / ?a
                      - ?q i * (\<Sum>k<d. ?p k * elem s k 0) / ?b"
      by (simp add: sum.distrib sum_subtractf sum_divide_distrib [symmetric] sum_distrib_left [symmetric])
    also have "\<dots> = ?q i + elem yy i 0 * ?a / ?a - ?q i * ?b / ?b"
      using sz by (simp add: as_scalar_dot as_scalar_quadratic)
    also have "\<dots> = elem yy i 0"
      using a b by simp
    finally show ?thesis .
  qed
  have "m_times ?H s = mk d 1 (elem (m_times ?H s))"
    by (rule mk_elem_self [symmetric]) (simp_all add: dims m_times_def)
  also have "\<dots> = mk d 1 (elem yy)"
    by (intro mk_cong) (simp add: row)
  also have "\<dots> = yy"
    by (rule mk_elem_self) (simp_all add: dims wf)
  finally show ?thesis .
qed

lemma symmetric_mk:
  assumes "\<And>i j. i < d \<Longrightarrow> j < d \<Longrightarrow> h i j = h j i"
  shows "symmetric (mk d d h)"
  using assms by (simp add: symmetric_def m_t_def mk_eq_iff)

lemma symmetric_elem:
  assumes "symmetric A" "i < n_rows A" "j < n_rows A"
  shows "elem A i j = elem A j i"
proof -
  from assms(1) have eq: "m_t A = A" and sq: "n_rows A = n_cols A"
    by (simp_all add: symmetric_def)
  have "elem A i j = elem (m_t A) i j" by (simp only: eq)
  also have "\<dots> = elem A j i"
    using assms(2,3) sq by (intro elem_m_t) simp_all
  finally show ?thesis .
qed

lemma symmetric_stochasticHessian:
  assumes sz: "sized d d A" "sized d 1 s" "sized d 1 yy"
    and sym: "symmetric A"
  shows "symmetric (stochasticHessian A s yy)"
proof -
  let ?H = "stochasticHessian A s yy"
  let ?a = "as_scalar (m_times (m_t yy) s)" and ?b = "as_scalar (m_times (m_times (m_t s) A) s)"
  let ?q = "\<lambda>i. \<Sum>m<d. elem A i m * elem s m 0"
  have dims: "n_rows A = d" "n_cols A = d" using sz by (simp_all add: sized_def)
  have flip: "(\<Sum>m<d. elem s m 0 * elem A m j) = ?q j" if "j < d" for j
  proof (intro sum.cong refl)
    fix m assume "m \<in> {..<d}"
    then have "elem A m j = elem A j m"
      using that sym dims by (intro symmetric_elem) simp_all
    then show "elem s m 0 * elem A m j = elem A j m * elem s m 0" by simp
  qed
  have formula: "elem ?H i j = elem A i j + elem yy i 0 * elem yy j 0 / ?a - ?q i * ?q j / ?b"
    if "i < d" "j < d" for i j
    using that sz by (simp add: elem_stochasticHessian flip)
  have "elem ?H i j = elem ?H j i" if "i < d" "j < d" for i j
  proof -
    have "elem A i j = elem A j i"
      using that sym dims by (intro symmetric_elem) simp_all
    then show ?thesis
      using that by (simp add: formula mult.commute)
  qed
  then have "symmetric (mk d d (elem ?H))"
    by (intro symmetric_mk)
  moreover have "?H = mk d d (elem ?H)"
    unfolding stochasticHessian_def m_minus_def
    by (simp add: dims mk_eq_iff)
  ultimately show ?thesis by simp
qed

section \<open>The states of \<open>Optimize\<close>\<close>

lemma inner_loop_reachable:
  assumes "reachable f opt lib iterate0 st"
    and "\<forall>j\<in>set js. j < NumFunctions f"
    and "inner_loop f opt lib js st = Inr st'"
  shows "reachable f opt lib iterate0 st'"
  using assms
proof (induction js arbitrary: st)
  case Nil
  then show ?case by simp
next
  case (Cons j js)
  from Cons.prems(3) obtain st1 where step: "inner_step f opt lib j st = Inr st1"
    and rest: "inner_loop f opt lib js st1 = Inr st'"
    by (auto split: sum.splits)
  have "reachable f opt lib iterate0 st1"
    using Cons.prems(1) _ step by (rule after_step) (simp add: Cons.prems(2))
  then show ?case
    using Cons.IH [of st1] Cons.prems(2) rest by simp
qed

lemma sweeps_Inr:
  assumes "sweeps f opt lib i st = Inr res"
  shows "(i = maxIterations opt
          \<and> res = \<lparr>returned = overallObjective st, outcome = MAX_ITERATIONS_REACHED, final = st\<rparr>)
         \<or> (i \<noteq> maxIterations opt
            \<and> (\<exists>st1. inner_loop f opt lib [0..<NumFunctions f] st = Inr st1
                 \<and> (if isnan (overallObjective (objective f i st1))
                        \<or> isinf (overallObjective (objective f i st1))
                     then res = \<lparr>returned = overallObjective (objective f i st1),
                                 outcome = NUMERICAL_FAILURE, final = objective f i st1\<rparr>
                     else if d_less (overallObjective (objective f i st1)) (tolerance opt)
                     then res = \<lparr>returned = overallObjective (objective f i st1),
                                 outcome = CONVERGED, final = objective f i st1\<rparr>
                     else sweeps f opt lib (i + 1) (objective f i st1) = Inr res)))"
proof (cases "i = maxIterations opt")
  case True
  then show ?thesis
    using assms by (subst (asm) sweeps.simps) auto
next
  case False
  show ?thesis
  proof (cases "inner_loop f opt lib [0..<NumFunctions f] st")
    case (Inl e)
    then show ?thesis
      using assms False by (subst (asm) sweeps.simps) simp
  next
    case (Inr st1)
    then show ?thesis
      using assms False by (subst (asm) sweeps.simps) (auto simp: Let_def split: if_splits)
  qed
qed

lemma sweeps_reachable:
  assumes "reachable f opt lib iterate0 st"
    and "sweeps f opt lib i st = Inr res"
  shows "reachable f opt lib iterate0 (final res)"
  using assms
proof (induction f opt lib i st rule: sweeps.induct)
  case (1 f opt lib i st)
  from sweeps_Inr [OF "1.prems"(2)] show ?case
  proof (elim disjE conjE exE)
    assume "res = \<lparr>returned = overallObjective st, outcome = MAX_ITERATIONS_REACHED, final = st\<rparr>"
    then show ?thesis using "1.prems"(1) by simp
  next
    fix st1
    assume ne: "i \<noteq> maxIterations opt"
      and loop: "inner_loop f opt lib [0..<NumFunctions f] st = Inr st1"
      and rest: "if isnan (overallObjective (objective f i st1))
                        \<or> isinf (overallObjective (objective f i st1))
                     then res = \<lparr>returned = overallObjective (objective f i st1),
                                 outcome = NUMERICAL_FAILURE, final = objective f i st1\<rparr>
                     else if d_less (overallObjective (objective f i st1)) (tolerance opt)
                     then res = \<lparr>returned = overallObjective (objective f i st1),
                                 outcome = CONVERGED, final = objective f i st1\<rparr>
                     else sweeps f opt lib (i + 1) (objective f i st1) = Inr res"
    let ?st2 = "objective f i st1"
    have "reachable f opt lib iterate0 st1"
      using "1.prems"(1) _ loop by (rule inner_loop_reachable) simp
    then have r2: "reachable f opt lib iterate0 ?st2"
      by (rule after_objective)
    show ?thesis
    proof (cases "isnan (overallObjective ?st2) \<or> isinf (overallObjective ?st2)")
      case True
      then show ?thesis using rest r2 by simp
    next
      case finite: False
      show ?thesis
      proof (cases "d_less (overallObjective ?st2) (tolerance opt)")
        case True
        then show ?thesis using rest finite r2 by simp
      next
        case False
        with rest finite have "sweeps f opt lib (i + 1) ?st2 = Inr res" by simp
        with "1.IH" [OF ne loop refl finite False r2] show ?thesis .
      qed
    qed
  qed
qed

lemma Optimize_reachable:
  assumes "Optimize f opt lib iterate0 = Inr res"
  shows "reachable f opt lib iterate0 (final res)"
proof -
  from assms obtain st where i: "init f lib iterate0 = Inr st"
    and s: "sweeps f opt lib 1 st = Inr res"
    by (auto simp: Optimize_def split: sum.splits)
  from i have "reachable f opt lib iterate0 st" by (rule after_init)
  then show ?thesis using s by (rule sweeps_reachable)
qed

text \<open>
  Claim C1. In every state of a run (after the initialization, after every inner step
  that returns, after the objective of a sweep) the aggregates equal the averages over
  the records of all components, computed from scratch: \<open>B = (1/n) \<Sum> Q\<^sub>i\<close>,
  \<open>g = (1/n) \<Sum> y\<^sub>i\<close> and \<open>u = (1/n) \<Sum> Q\<^sub>i t\<^sub>i\<close>, over exact real arithmetic. The state in
  which \<open>Optimize\<close> returns is such a state (\<open>Optimize_reachable\<close>).
\<close>

theorem aggregate_consistency:
  assumes "reachable f opt lib iterate0 st"
  shows "aggregate_consistent f st"
  using reachable_invariant [OF assms] by simp

lemma reachable_run_b: "reachable two_quadratics full_step scalar_lib start3 run_b"
proof -
  have "reachable two_quadratics full_step scalar_lib start3 run_a"
    using run_init by (rule after_init)
  then show ?thesis
    using _ run_step_a by (rule after_step) (simp add: two_quadratics_def)
qed

theorem aggregate_consistency_witness:
  "reachable two_quadratics full_step scalar_lib start3 run_b
   \<and> aggregate_consistent two_quadratics run_b"
  using reachable_run_b aggregate_consistency [OF reachable_run_b] by simp

section \<open>The secant equation and symmetry along a run\<close>

lemma symmetric_eye: "symmetric (eye d d)"
  unfolding eye_def by (rule symmetric_mk) auto

lemma symmetric_average:
  assumes "list_all symmetric Ms" and "list_all (sized d d) Ms"
  shows "symmetric (average n d d Ms)"
  unfolding average_eq
proof (rule symmetric_mk)
  fix i j assume ij: "i < d" "j < d"
  have "map (\<lambda>M. elem M i j) Ms = map (\<lambda>M. elem M j i) Ms"
  proof (rule map_cong [OF refl])
    fix M assume "M \<in> set Ms"
    with assms have "symmetric M" "n_rows M = d"
      by (simp_all add: list_all_iff sized_def)
    with ij show "elem M i j = elem M j i"
      by (intro symmetric_elem) simp_all
  qed
  then show "1 / real n * sum_list (map (\<lambda>M. elem M i j) Ms)
             = 1 / real n * sum_list (map (\<lambda>M. elem M j i) Ms)"
    by (simp only:)
qed

lemma secant_sizes:
  assumes ok: "shapes_ok f r c st"
    and it: "it < NumFunctions f"
    and size: "same_size (new_gradient f st it) (y st ! it)"
  shows "sized (r * c) (r * c) (Q st ! it)"
    and "sized (r * c) 1 (secant_s st it)"
    and "sized (r * c) 1 (secant_y f st it)"
    and "length (mem (secant_y f st it)) = r * c"
proof -
  from ok it have slices: "sized r c (y st ! it)" "sized (r * c) (r * c) (Q st ! it)"
    by (simp_all add: shapes_ok_def list_all_nth)
  then show "sized (r * c) (r * c) (Q st ! it)" by simp
  show "sized (r * c) 1 (secant_s st it)"
    using ok by (simp add: secant_s_def cur_iterate_def shapes_ok_def sized_def)
  have grad: "sized r c (new_gradient f st it)"
    using size slices(1) by (rule same_size_sized)
  then show "sized (r * c) 1 (secant_y f st it)"
    by (simp add: secant_y_def sized_def)
  show "length (mem (secant_y f st it)) = r * c"
    using grad by (simp add: secant_y_def vectorise_def m_minus_def sized_def)
qed

lemma reachable_symmetric:
  assumes "reachable f opt lib iterate0 st"
  shows "list_all symmetric (Q st)"
  using assms
proof (induction rule: reachable.induct)
  case (after_init st)
  from init_Inr(1) [OF after_init] show ?case
    by (simp add: initial_state_def Let_def list_all_iff symmetric_eye)
next
  case (after_step st j st')
  let ?it = "selected (NumFunctions f) j"
  from reachable_invariant [OF after_step.hyps(1)]
  have n: "0 < NumFunctions f"
    and ok: "shapes_ok f (n_rows iterate0) (n_cols iterate0) st"
    by simp_all
  have it: "?it < NumFunctions f" using n by (simp add: selected_def)
  from after_step.hyps(3) have "visit f opt lib ?it st = Inr st'"
    by (simp add: inner_step_def)
  from visit_Inr [OF this] show ?case
  proof (elim disjE conjE exE)
    assume "st' = st"
    then show ?thesis using after_step.IH by simp
  next
    fix Bi
    assume size: "same_size (new_gradient f st ?it) (y st ! ?it)"
      and st': "st' = updated f opt Bi ?it st"
    have "symmetric (Q st ! ?it)"
      using after_step.IH it ok by (simp add: list_all_nth shapes_ok_def)
    with secant_sizes(1-3) [OF ok it size] have "symmetric (new_Q f st ?it)"
      unfolding new_Q_def by (intro symmetric_stochasticHessian)
    then show ?thesis
      using after_step.IH by (simp add: st' updated_def Let_def list_all_update)
  qed
next
  case (after_objective st i)
  then show ?case by simp
qed

lemma reachable_symmetric_B:
  assumes "reachable f opt lib iterate0 st"
  shows "symmetric (B st)"
proof -
  from reachable_invariant [OF assms]
  have ok: "shapes_ok f (n_rows iterate0) (n_cols iterate0) st"
    and cons: "aggregate_consistent f st"
    by simp_all
  let ?d = "n_rows iterate0 * n_cols iterate0"
  from ok cons have "B st = average (NumFunctions f) ?d ?d (Q st)"
    by (simp add: aggregate_consistent_def shapes_ok_def Let_def)
  moreover have "symmetric (average (NumFunctions f) ?d ?d (Q st))"
    using reachable_symmetric [OF assms] ok
    by (intro symmetric_average) (simp_all add: shapes_ok_def)
  ultimately show ?thesis by simp
qed

text \<open>
  Claim C2. In a state of a run, let \<open>it\<close> be the component that step \<open>j\<close> selects,
  \<open>s = iterate - t\<^sub>i\<^sub>t\<close> and \<open>y = gradient - y\<^sub>i\<^sub>t\<close> (the gradient having the size of the
  iterate). When the two denominators \<open>y\<^sup>T s\<close> and \<open>s\<^sup>T Q\<^sub>i\<^sub>t s\<close> are not zero, the matrix
  \<open>Qnew\<close> of lines 80 to 82 satisfies \<open>Qnew s = y\<close> and is symmetric; every stored
  curvature and the aggregate curvature are symmetric in every state of the run; and a
  step that updates stores \<open>Qnew\<close> as the curvature of \<open>it\<close>.
\<close>

theorem secant_property:
  fixes f :: decomposable and j :: nat
  defines "it \<equiv> selected (NumFunctions f) j"
  assumes reach: "reachable f opt lib iterate0 st"
    and size: "same_size (new_gradient f st it) (y st ! it)"
    and ys: "as_scalar (m_times (m_t (secant_y f st it)) (secant_s st it)) \<noteq> 0"
    and sQs: "as_scalar (m_times (m_times (m_t (secant_s st it)) (Q st ! it)) (secant_s st it)) \<noteq> 0"
  shows "new_Q f st it = stochasticHessian (Q st ! it) (secant_s st it) (secant_y f st it)
         \<and> m_times (new_Q f st it) (secant_s st it) = secant_y f st it
         \<and> symmetric (new_Q f st it)
         \<and> list_all symmetric (Q st)
         \<and> symmetric (B st)
         \<and> (\<forall>st'. updates st it \<and> inner_step f opt lib j st = Inr st' \<longrightarrow>
               Q st' ! it = new_Q f st it \<and> list_all symmetric (Q st') \<and> symmetric (B st'))"
proof -
  from reachable_invariant [OF reach]
  have n: "0 < NumFunctions f"
    and ok: "shapes_ok f (n_rows iterate0) (n_cols iterate0) st"
    by simp_all
  have it: "it < NumFunctions f" using n by (simp add: it_def selected_def)
  note sizes = secant_sizes [OF ok it size]
  have secant: "m_times (new_Q f st it) (secant_s st it) = secant_y f st it"
    unfolding new_Q_def using sizes ys sQs by (intro stochasticHessian_secant)
  have symQ: "list_all symmetric (Q st)" using reach by (rule reachable_symmetric)
  then have "symmetric (Q st ! it)"
    using it ok by (simp add: list_all_nth shapes_ok_def)
  with sizes(1-3) have symN: "symmetric (new_Q f st it)"
    unfolding new_Q_def by (intro symmetric_stochasticHessian)
  have step: "Q st' ! it = new_Q f st it \<and> list_all symmetric (Q st') \<and> symmetric (B st')"
    if up: "updates st it" and st': "inner_step f opt lib j st = Inr st'" for st'
  proof -
    from st' have v: "visit f opt lib it st = Inr st'"
      by (simp add: inner_step_def it_def)
    from visit_Inr [OF v] up obtain Bi where upd: "st' = updated f opt Bi it st" by auto
    then have Q': "Q st' = (Q st)[it := new_Q f st it]"
      by (simp add: updated_def Let_def)
    have len: "it < length (Q st)" using it ok by (simp add: shapes_ok_def)
    have "Q st' ! it = new_Q f st it" using len by (simp add: Q')
    moreover have symQ': "list_all symmetric (Q st')"
      using symQ symN by (simp add: Q' list_all_update)
    moreover have "symmetric (B st')"
    proof -
      have ok': "shapes_ok f (n_rows iterate0) (n_cols iterate0) st'"
        unfolding upd using ok it size by (rule shapes_updated)
      have cons: "aggregate_consistent f st" using reachable_invariant [OF reach] by simp
      have "aggregate_consistent f st'"
        unfolding upd using ok cons it size by (rule consistent_updated)
      with ok' have "B st' = average (NumFunctions f) (n_rows iterate0 * n_cols iterate0)
                        (n_rows iterate0 * n_cols iterate0) (Q st')"
        by (simp add: aggregate_consistent_def shapes_ok_def Let_def)
      moreover have "symmetric (average (NumFunctions f) (n_rows iterate0 * n_cols iterate0)
                        (n_rows iterate0 * n_cols iterate0) (Q st'))"
        using symQ' ok' by (intro symmetric_average) (simp_all add: shapes_ok_def)
      ultimately show ?thesis by simp
    qed
    ultimately show ?thesis by simp
  qed
  show ?thesis
    using secant symN symQ reachable_symmetric_B [OF reach] step
    by (simp add: new_Q_def)
qed


lemma reachable_run_a: "reachable two_quadratics full_step scalar_lib start3 run_a"
  using run_init by (rule after_init)

lemmas step_defs = new_gradient_def secant_s_def secant_y_def cur_iterate_def new_Q_def
  new_B_def new_u_def new_g_def updates_def

theorem secant_property_witness:
  "reachable two_quadratics full_step scalar_lib start3 run_a
   \<and> same_size (new_gradient two_quadratics run_a (selected (NumFunctions two_quadratics) 0))
        (y run_a ! selected (NumFunctions two_quadratics) 0)
   \<and> as_scalar (m_times (m_t (secant_y two_quadratics run_a (selected (NumFunctions two_quadratics) 0)))
        (secant_s run_a (selected (NumFunctions two_quadratics) 0))) \<noteq> 0
   \<and> as_scalar (m_times (m_times (m_t (secant_s run_a (selected (NumFunctions two_quadratics) 0)))
        (Q run_a ! selected (NumFunctions two_quadratics) 0))
        (secant_s run_a (selected (NumFunctions two_quadratics) 0))) \<noteq> 0
   \<and> m_times (new_Q two_quadratics run_a (selected (NumFunctions two_quadratics) 0))
        (secant_s run_a (selected (NumFunctions two_quadratics) 0))
       = secant_y two_quadratics run_a (selected (NumFunctions two_quadratics) 0)
   \<and> symmetric (new_Q two_quadratics run_a (selected (NumFunctions two_quadratics) 0))"
proof -
  have size: "same_size (new_gradient two_quadratics run_a (selected (NumFunctions two_quadratics) 0))
        (y run_a ! selected (NumFunctions two_quadratics) 0)"
    by (simp add: step_defs run_a_def instance_defs)
  have ys: "as_scalar (m_times (m_t (secant_y two_quadratics run_a (selected (NumFunctions two_quadratics) 0)))
        (secant_s run_a (selected (NumFunctions two_quadratics) 0))) \<noteq> 0"
    by (simp add: step_defs run_a_def instance_defs)
  have sQs: "as_scalar (m_times (m_times (m_t (secant_s run_a (selected (NumFunctions two_quadratics) 0)))
        (Q run_a ! selected (NumFunctions two_quadratics) 0))
        (secant_s run_a (selected (NumFunctions two_quadratics) 0))) \<noteq> 0"
    by (simp add: step_defs run_a_def instance_defs)
  show ?thesis
    using reachable_run_a size ys sQs secant_property [OF reachable_run_a size ys sQs]
    by blast
qed

section \<open>The damped Newton step\<close>

lemma newton_full_step:
  assumes "n_rows V = n_rows Bi" and "n_cols V = n_cols U"
  shows "newton 1 Bi U G V = m_times Bi (m_minus U G)"
proof -
  let ?W = "m_minus U G"
  have "elem (m_times (s_times 1 Bi) ?W) i j + elem (s_times (1 - 1) V) i j
        = sum_list (map (\<lambda>k. elem Bi i k * elem ?W k j) [0..<n_cols Bi])"
    if "i < n_rows Bi" "j < n_cols U" for i j
  proof -
    have "elem (m_times (s_times 1 Bi) ?W) i j = (\<Sum>k<n_cols Bi. elem (s_times 1 Bi) i k * elem ?W k j)"
      using that by (simp add: elem_m_times)
    also have "\<dots> = (\<Sum>k<n_cols Bi. elem Bi i k * elem ?W k j)"
      using that by (intro sum.cong) (simp_all add: elem_simps)
    finally have "elem (m_times (s_times 1 Bi) ?W) i j
                  = sum_list (map (\<lambda>k. elem Bi i k * elem ?W k j) [0..<n_cols Bi])"
      by (simp add: sum_list_upt)
    moreover have "elem (s_times (1 - 1) V) i j = 0"
      using that assms by (simp add: elem_simps)
    ultimately show ?thesis by simp
  qed
  then show ?thesis
    unfolding newton_def m_plus_def [of "m_times (s_times 1 Bi) ?W"] m_times_def [of Bi ?W]
    by (simp add: mk_eq_iff)
qed

text \<open>
  Claim C8. On an inner step that updates, with an inverse routine that returns the
  inverse of the updated aggregate curvature, the state after the step holds the updated
  aggregates \<open>B\<close>, \<open>u\<close>, \<open>g\<close>, and the new iterate is
  \<open>stepSize \<cdot> B\<^sup>-\<^sup>1 (u - g) + (1 - stepSize) \<cdot> iterate\<close> with these updated aggregates and
  the iterate from before the step; for \<open>stepSize = 1\<close> it is \<open>B\<^sup>-\<^sup>1 (u - g)\<close>. The new
  iterate is what the caller's matrix holds.
\<close>

theorem damped_newton_step:
  fixes f :: decomposable and j :: nat
  defines "it \<equiv> selected (NumFunctions f) j"
  assumes reach: "reachable f opt lib iterate0 st"
    and up: "updates st it"
    and step: "inner_step f opt lib j st = Inr st'"
    and lib_ok: "\<And>Bi. mat_i lib (new_B f st it) = Some Bi \<Longrightarrow> inverse_of Bi (new_B f st it)"
  shows "B st' = new_B f st it
         \<and> u st' = new_u f st it
         \<and> deref (heap st') (g st') = new_g f st it
         \<and> (\<exists>Bi. inverse_of Bi (B st')
               \<and> cur_iterate st'
                   = m_plus (m_times (s_times (stepSize opt) Bi)
                               (m_minus (u st') (deref (heap st') (gVec st'))))
                       (s_times (1 - stepSize opt) (cur_iterate st))
               \<and> (stepSize opt = 1 \<longrightarrow>
                     cur_iterate st' = m_times Bi (m_minus (u st') (deref (heap st') (gVec st')))))
         \<and> vectorise (deref (heap st') (iterate st')) = cur_iterate st'"
proof -
  let ?r = "n_rows iterate0" and ?c = "n_cols iterate0"
  let ?d = "n_rows iterate0 * n_cols iterate0"
  from reachable_invariant [OF reach]
  have n: "0 < NumFunctions f" and ok: "shapes_ok f ?r ?c st" and cons: "aggregate_consistent f st"
    by simp_all
  have it: "it < NumFunctions f" using n by (simp add: it_def selected_def)
  from ok have views: "iterate st = \<lparr>v_rows = ?r, v_cols = ?c, v_ptr = 0\<rparr>"
    "iterateVec st = \<lparr>v_rows = ?d, v_cols = 1, v_ptr = 0\<rparr>"
    "g st = \<lparr>v_rows = ?r, v_cols = ?c, v_ptr = 1\<rparr>"
    "gVec st = \<lparr>v_rows = ?d, v_cols = 1, v_ptr = 1\<rparr>"
    and u_size: "sized ?d 1 (u st)"
    by (simp_all add: shapes_ok_def)
  from step have "visit f opt lib it st = Inr st'"
    by (simp add: inner_step_def it_def)
  from visit_Inr [OF this] up obtain Bi where
    size: "same_size (new_gradient f st it) (y st ! it)"
    and inv: "mat_i lib (new_B f st it) = Some Bi"
    and cols: "n_cols Bi = n_rows (new_u f st it)"
    and rows: "n_rows Bi = n_rows (cur_iterate st)"
    and upd: "st' = updated f opt Bi it st"
    by auto
  let ?heap1 = "(heap st)(v_ptr (g st) := mem (new_g f st it))"
  let ?new = "newton (stepSize opt) Bi (new_u f st it) (deref ?heap1 (gVec st)) (cur_iterate st)"
  have heap': "heap st' = ?heap1(v_ptr (iterateVec st) := mem ?new)"
    by (simp add: upd updated_def Let_def)
  have gv: "deref (heap st') (gVec st') = deref ?heap1 (gVec st)"
    by (simp add: upd updated_def Let_def views deref_def)
  have u_cols: "n_cols (new_u f st it) = 1"
    using u_size by (simp add: new_u_def sized_def)
  have cur_size: "n_rows (cur_iterate st) = ?d" "n_cols (cur_iterate st) = 1"
    by (simp_all add: cur_iterate_def views)
  have new_size: "sized ?d 1 ?new"
    using rows u_cols cur_size by (simp add: newton_def sized_def)
  have cur': "cur_iterate st' = ?new"
    unfolding cur_iterate_def [of st']
    using new_size by (intro deref_sized) (simp_all add: upd updated_def Let_def views cur_iterate_def)
  have g_size: "sized ?r ?c (new_g f st it)"
    by (simp add: new_g_def sized_def views)
  have g': "deref (heap st') (g st') = new_g f st it"
    using g_size by (intro deref_sized) (simp_all add: upd updated_def Let_def views)
  have B': "B st' = new_B f st it" and u': "u st' = new_u f st it"
    by (simp_all add: upd updated_def Let_def)
  have formula: "cur_iterate st'
        = m_plus (m_times (s_times (stepSize opt) Bi)
                    (m_minus (u st') (deref (heap st') (gVec st'))))
            (s_times (1 - stepSize opt) (cur_iterate st))"
    by (simp add: cur' gv u' newton_def)
  have full: "cur_iterate st' = m_times Bi (m_minus (u st') (deref (heap st') (gVec st')))"
    if "stepSize opt = 1"
    using that rows u_cols cur_size by (simp add: cur' gv u' newton_full_step)
  have caller: "vectorise (deref (heap st') (iterate st')) = cur_iterate st'"
    by (simp add: vectorise_def cur_iterate_def deref_def n_elem_def upd updated_def Let_def views)
  have "inverse_of Bi (B st')"
    using lib_ok [OF inv] by (simp add: B')
  then show ?thesis
    using B' u' g' formula full caller by blast
qed

lemma updates_run_a: "updates run_a (selected (NumFunctions two_quadratics) 0)"
  by (simp add: step_defs run_a_def instance_defs)

theorem damped_newton_step_witness:
  "reachable two_quadratics full_step scalar_lib start3 run_a
   \<and> updates run_a (selected (NumFunctions two_quadratics) 0)
   \<and> inner_step two_quadratics full_step scalar_lib 0 run_a = Inr run_b
   \<and> B run_b = new_B two_quadratics run_a (selected (NumFunctions two_quadratics) 0)
   \<and> (\<exists>Bi. inverse_of Bi (B run_b)
         \<and> cur_iterate run_b = m_times Bi (m_minus (u run_b) (deref (heap run_b) (gVec run_b))))"
proof -
  have inv: "inverse_of Bi (new_B two_quadratics run_a (selected (NumFunctions two_quadratics) 0))"
    if "mat_i scalar_lib (new_B two_quadratics run_a (selected (NumFunctions two_quadratics) 0)) = Some Bi"
    for Bi
    using that
    by (auto simp: inverse_of_def sized_def step_defs run_a_def instance_defs split: if_splits)
  have one: "stepSize full_step = 1" by (simp add: full_step_def)
  show ?thesis
    using reachable_run_a updates_run_a run_step_a one
      damped_newton_step [OF reachable_run_a updates_run_a run_step_a inv]
    by blast
qed

section \<open>The log during a sweep\<close>

lemma updated_info [simp]:
  "info (updated f opt Bi it st) = info st"
  "overallObjective (updated f opt Bi it st) = overallObjective st"
  by (simp_all add: updated_def Let_def)

lemma inner_loop_info:
  assumes "inner_loop f opt lib js st = Inr st'"
  shows "info st' = info st"
  using assms
proof (induction js arbitrary: st)
  case Nil
  then show ?case by simp
next
  case (Cons j js)
  from Cons.prems obtain st1 where step: "inner_step f opt lib j st = Inr st1"
    and rest: "inner_loop f opt lib js st1 = Inr st'"
    by (auto split: sum.splits)
  from step have "visit f opt lib (selected (NumFunctions f) j) st = Inr st1"
    by (simp add: inner_step_def)
  from visit_Inr [OF this] have "info st1 = info st" by auto
  with Cons.IH [OF rest] show ?case by simp
qed

lemma objective_result:
  "overallObjective (objective f i st) = mean_objective f (deref (heap st) (iterate st))"
  "info (objective f i st) = info st @ [(i, mean_objective f (deref (heap st) (iterate st)))]"
  by (simp_all add: objective_def Let_def)

section \<open>The scalar returned without a sweep\<close>

text \<open>
  Claim C5 does not hold of the code in one terminal case: with \<open>maxIterations = 1\<close> the
  loop of line 67 starts its counter at 1 and runs no sweep, so lines 104 to 107 are never
  reached. On the small instance \<open>Optimize\<close> returns the 0 that line 39 assigned, with
  the exhausted budget as outcome, having logged no objective and called \<open>Evaluate\<close> not
  once: the scalar is no mean of component values, and the two component values at the
  iterate it returns are 9/2 and 2.
\<close>

theorem returned_scalar_without_sweep:
  "Optimize two_quadratics one_iteration scalar_lib start3
     = Inr \<lparr>returned = Fin 0, outcome = MAX_ITERATIONS_REACHED, final = run_a\<rparr>
   \<and> info run_a = []
   \<and> calls run_a = [GradientCall (scalar 0) 0, GradientCall (scalar 0) 1]
   \<and> Evaluate two_quadratics (deref (heap run_a) (iterate run_a)) 0 = Fin (9 / 2)
   \<and> Evaluate two_quadratics (deref (heap run_a) (iterate run_a)) 1 = Fin 2"
proof -
  have "sweeps two_quadratics one_iteration scalar_lib 1 run_a
        = Inr \<lparr>returned = Fin 0, outcome = MAX_ITERATIONS_REACHED, final = run_a\<rparr>"
    by (subst sweeps.simps) (simp add: one_iteration_def run_a_def)
  then have "Optimize two_quadratics one_iteration scalar_lib start3
     = Inr \<lparr>returned = Fin 0, outcome = MAX_ITERATIONS_REACHED, final = run_a\<rparr>"
    by (simp add: Optimize_def run_init)
  moreover have "info run_a = []"
    "calls run_a = [GradientCall (scalar 0) 0, GradientCall (scalar 0) 1]"
    by (simp_all add: run_a_def)
  moreover have "Evaluate two_quadratics (deref (heap run_a) (iterate run_a)) 0 = Fin (9 / 2)"
    "Evaluate two_quadratics (deref (heap run_a) (iterate run_a)) 1 = Fin 2"
    by (simp_all add: run_a_def two_quadratics_def deref_def elem_def scalar_view_def)
  ultimately show ?thesis by simp
qed

section \<open>The number of sweeps\<close>

text \<open>
  A run that ends with the exhausted budget has logged \<open>maxIterations - 1\<close> sweeps,
  counted modulo \<open>2 ^ 64\<close>: none for \<open>maxIterations = 1\<close>, and \<open>2 ^ 64 - 1\<close> for
  \<open>maxIterations = 0\<close>.
\<close>

lemma sweeps_count:
  assumes "sweeps f opt lib i st = Inr res"
    and "outcome res = MAX_ITERATIONS_REACHED"
  shows "length (info (final res)) = length (info st) + unat (maxIterations opt - i)"
  using assms
proof (induction f opt lib i st rule: sweeps.induct)
  case (1 f opt lib i st)
  from sweeps_Inr [OF "1.prems"(1)] show ?case
  proof (elim disjE conjE exE)
    assume "i = maxIterations opt"
      and "res = \<lparr>returned = overallObjective st, outcome = MAX_ITERATIONS_REACHED, final = st\<rparr>"
    then show ?thesis by simp
  next
    fix st1
    assume ne: "i \<noteq> maxIterations opt"
      and loop: "inner_loop f opt lib [0..<NumFunctions f] st = Inr st1"
      and rest: "if isnan (overallObjective (objective f i st1))
                        \<or> isinf (overallObjective (objective f i st1))
                     then res = \<lparr>returned = overallObjective (objective f i st1),
                                 outcome = NUMERICAL_FAILURE, final = objective f i st1\<rparr>
                     else if d_less (overallObjective (objective f i st1)) (tolerance opt)
                     then res = \<lparr>returned = overallObjective (objective f i st1),
                                 outcome = CONVERGED, final = objective f i st1\<rparr>
                     else sweeps f opt lib (i + 1) (objective f i st1) = Inr res"
    let ?st2 = "objective f i st1"
    have c1: "\<not> (isnan (overallObjective ?st2) \<or> isinf (overallObjective ?st2))"
      using rest "1.prems"(2) by (auto split: if_splits)
    have c2: "\<not> d_less (overallObjective ?st2) (tolerance opt)"
      using rest "1.prems"(2) c1 by (auto split: if_splits)
    from rest c1 c2 have next_sweep: "sweeps f opt lib (i + 1) ?st2 = Inr res" by simp
    have "length (info (final res)) = length (info ?st2) + unat (maxIterations opt - (i + 1))"
      by (rule "1.IH" [OF ne loop refl c1 c2 next_sweep "1.prems"(2)])
    moreover have "length (info ?st2) = Suc (length (info st))"
      using inner_loop_info [OF loop] by (simp add: objective_result)
    moreover have "Suc (unat (maxIterations opt - (i + 1))) = unat (maxIterations opt - i)"
    proof -
      have "maxIterations opt - i \<noteq> 0" using ne by simp
      then have "Suc (unat (maxIterations opt - i - 1)) = unat (maxIterations opt - i)"
        by (simp add: unat_minus_one unat_gt_0)
      moreover have "maxIterations opt - (i + 1) = maxIterations opt - i - 1" by simp
      ultimately show ?thesis by (simp only:)
    qed
    ultimately show ?thesis by simp
  qed
qed

lemma Optimize_sweep_count:
  assumes "Optimize f opt lib iterate0 = Inr res"
    and "outcome res = MAX_ITERATIONS_REACHED"
  shows "length (info (final res)) = unat (maxIterations opt - 1)"
proof -
  from assms(1) obtain st where i: "init f lib iterate0 = Inr st"
    and s: "sweeps f opt lib 1 st = Inr res"
    by (auto simp: Optimize_def split: sum.splits)
  from init_Inr(1) [OF i] have "info st = []"
    by (simp add: initial_state_def Let_def)
  with sweeps_count [OF s assms(2)] show ?thesis by simp
qed

section \<open>Sizes in the run with the arithmetic left open\<close>

lemma f_mk_sizes [simp]:
  "f_rows (f_mk r c h) = r"
  "f_cols (f_mk r c h) = c"
  "length (f_mem (f_mk r c h)) = r * c"
  by (simp_all add: f_mk_def)

lemma f_op_sizes [simp]:
  "f_rows (f_plus ar A X) = f_rows A" "f_cols (f_plus ar A X) = f_cols A"
  "f_rows (f_minus ar A X) = f_rows A" "f_cols (f_minus ar A X) = f_cols A"
  "f_rows (f_scale ar a A) = f_rows A" "f_cols (f_scale ar a A) = f_cols A"
  "f_rows (f_times ar A X) = f_rows A" "f_cols (f_times ar A X) = f_cols X"
  by (simp_all add: f_plus_def f_minus_def f_scale_def f_times_def)

lemma f_deref_simps [simp]:
  "f_rows (f_deref h v) = v_rows v"
  "f_cols (f_deref h v) = v_cols v"
  "f_mem (f_deref h v) = h (v_ptr v)"
  by (simp_all add: f_deref_def)

section \<open>The two cases of a step\<close>

lemma visit_fp_not_moved:
  assumes "visit_fp ar f opt lib it st = Inr st'"
    and "\<not> fp_norm_positive ar
            (f_mem (f_minus ar (f_deref (heap_fp st) (iterateVec_fp st)) (t_fp st ! it)))"
  shows "st' = st"
  using assms by (simp add: visit_fp_def Let_def)

lemma visit_fp_moved:
  assumes "visit_fp ar f opt lib it st = Inr st'"
    and "fp_norm_positive ar
            (f_mem (f_minus ar (f_deref (heap_fp st) (iterateVec_fp st)) (t_fp st ! it)))"
  shows "\<exists>Bi hg. mat_i_fp lib (B_fp st') = Some Bi
           \<and> f_rows Bi = v_rows (iterateVec_fp st)
           \<and> f_cols (u_fp st') = v_cols (iterateVec_fp st)
           \<and> heap_fp st' =
               ((heap_fp st)(v_ptr (g_fp st) := hg))
                 (v_ptr (iterateVec_fp st) :=
                    f_mem (newton_fp ar (stepSize_fp opt) Bi (u_fp st')
                       (f_deref ((heap_fp st)(v_ptr (g_fp st) := hg)) (gVec_fp st))
                       (f_deref (heap_fp st) (iterateVec_fp st))))"
  using assms
  by (auto simp: visit_fp_def Let_def split: if_splits option.splits)

lemma visit_fp_views:
  assumes "visit_fp ar f opt lib it st = Inr st'"
  shows "iterate_fp st' = iterate_fp st" "iterateVec_fp st' = iterateVec_fp st"
    "g_fp st' = g_fp st" "gVec_fp st' = gVec_fp st"
  using assms
  by (auto simp: visit_fp_def Let_def split: if_splits option.splits)

lemma init_fp_Inr:
  assumes "init_fp ar f lib iterate0 = Inr st"
  shows "views_fp (f_rows iterate0) (f_cols iterate0) st"
    and "heap_fp st 0 = f_mem iterate0"
  using assms
  by (auto simp: init_fp_def Let_def views_fp_def split: sum.splits if_splits)

lemma objective_fp_fields [simp]:
  "heap_fp (objective_fp ar f i st) = heap_fp st"
  "iterate_fp (objective_fp ar f i st) = iterate_fp st"
  "iterateVec_fp (objective_fp ar f i st) = iterateVec_fp st"
  "g_fp (objective_fp ar f i st) = g_fp st"
  "gVec_fp (objective_fp ar f i st) = gVec_fp st"
  by (simp_all add: objective_fp_def Let_def)

section \<open>The caller's buffer and the iterate of the algorithm\<close>

text \<open>
  In every state of the run the four headers are those of the initialization, the
  caller's buffer has the length it had on entry, and the caller's matrix read as a vector
  is the iterate of the algorithm.
\<close>

lemma algorithm_iterate_buffer:
  assumes "algorithm_iterate ar f opt lib iterate0 st x"
    and "length (f_mem iterate0) = f_rows iterate0 * f_cols iterate0"
  shows "views_fp (f_rows iterate0) (f_cols iterate0) st
         \<and> length (heap_fp st 0) = f_rows iterate0 * f_cols iterate0
         \<and> x = f_vectorise (f_deref (heap_fp st) (iterate_fp st))"
  using assms
proof (induction rule: algorithm_iterate.induct)
  case (at_start st)
  from init_fp_Inr [OF at_start.hyps] at_start.prems show ?case
    by (simp add: views_fp_def f_vectorise_def f_deref_def)
next
  case (not_moved st x it st')
  from not_moved.IH [OF not_moved.prems]
  have v: "views_fp (f_rows iterate0) (f_cols iterate0) st"
    and x: "x = f_vectorise (f_deref (heap_fp st) (iterate_fp st))"
    and len: "length (heap_fp st 0) = f_rows iterate0 * f_cols iterate0"
    by simp_all
  have "f_deref (heap_fp st) (iterateVec_fp st) = x"
    using v by (simp add: x views_fp_def f_vectorise_def f_deref_def)
  with not_moved.hyps(2,3) have "st' = st"
    by (auto dest: visit_fp_not_moved)
  with v x len show ?case by simp
next
  case (moved st x it st' Bi)
  from moved.IH [OF moved.prems]
  have v: "views_fp (f_rows iterate0) (f_cols iterate0) st"
    and x: "x = f_vectorise (f_deref (heap_fp st) (iterate_fp st))"
    by simp_all
  have cur: "f_deref (heap_fp st) (iterateVec_fp st) = x"
    using v by (simp add: x views_fp_def f_vectorise_def f_deref_def)
  have v': "views_fp (f_rows iterate0) (f_cols iterate0) st'"
    using v visit_fp_views [OF moved.hyps(3)] by (simp add: views_fp_def)
  from visit_fp_moved [OF moved.hyps(3)] moved.hyps(2) cur
  obtain Bi' hg where inv: "mat_i_fp lib (B_fp st') = Some Bi'"
    and rows: "f_rows Bi' = v_rows (iterateVec_fp st)"
    and cols: "f_cols (u_fp st') = v_cols (iterateVec_fp st)"
    and heap': "heap_fp st' =
               ((heap_fp st)(v_ptr (g_fp st) := hg))
                 (v_ptr (iterateVec_fp st) :=
                    f_mem (newton_fp ar (stepSize_fp opt) Bi' (u_fp st')
                       (f_deref ((heap_fp st)(v_ptr (g_fp st) := hg)) (gVec_fp st)) x))"
    by auto
  from inv moved.hyps(4) have Bi: "Bi' = Bi" by simp
  let ?new = "f_plus ar
          (f_times ar (f_scale ar (stepSize_fp opt) Bi)
             (f_minus ar (u_fp st') (f_deref (heap_fp st') (gVec_fp st'))))
          (f_scale ar (fp_sub ar (fp_one ar) (stepSize_fp opt)) x)"
  let ?gv = "f_deref ((heap_fp st)(v_ptr (g_fp st) := hg)) (gVec_fp st)"
  have g_kept: "f_deref (heap_fp st') (gVec_fp st') = ?gv"
    using v v' by (simp add: heap' views_fp_def f_deref_def)
  have "heap_fp st' 0 = f_mem (newton_fp ar (stepSize_fp opt) Bi (u_fp st') ?gv x)"
    using v by (simp add: heap' Bi views_fp_def)
  then have written: "heap_fp st' 0 = f_mem ?new"
    by (simp only: g_kept newton_fp_def)
  have sz: "f_rows ?new = f_rows iterate0 * f_cols iterate0" "f_cols ?new = 1"
    using v rows cols by (simp_all add: Bi views_fp_def)
  have "length (heap_fp st' 0) = f_rows iterate0 * f_cols iterate0"
    unfolding written by (simp add: f_plus_def sz [unfolded f_op_sizes] Bi)
  moreover have "?new = f_vectorise (f_deref (heap_fp st') (iterate_fp st'))"
    using v' sz written by (simp add: views_fp_def f_vectorise_def f_deref_def)
  ultimately show ?case using v' by simp
next
  case (evaluated st x i)
  then show ?case by (simp add: views_fp_def)
qed

text \<open>So a state of the run has one iterate only.\<close>

lemma algorithm_iterate_unique:
  assumes "algorithm_iterate ar f opt lib iterate0 st x"
    and "algorithm_iterate ar f opt lib iterate0 st x'"
    and "length (f_mem iterate0) = f_rows iterate0 * f_cols iterate0"
  shows "x = x'"
  using algorithm_iterate_buffer [OF assms(1,3)] algorithm_iterate_buffer [OF assms(2,3)]
  by simp

section \<open>The states of the run\<close>



declare sweeps_fp.simps [simp del]


section \<open>The run on the small instance with exact operations\<close>







section \<open>The caller's matrix\<close>



section \<open>The checks after a sweep\<close>

lemma objective_fp_result:
  "overallObjective_fp (objective_fp ar f i st)
     = mean_objective_fp ar f (f_deref (heap_fp st) (iterate_fp st))"
  "info_fp (objective_fp ar f i st)
     = info_fp st @ [(i, mean_objective_fp ar f (f_deref (heap_fp st) (iterate_fp st)))]"
  by (simp_all add: objective_fp_def Let_def)

text \<open>
  What a run returns, whatever the arithmetic computes. Either no sweep has been logged:
  then the budget is exhausted and the scalar is the initial zero. Or the scalar is the
  objective logged for the last sweep, computed by lines 104 to 107 at the iterate that
  the caller's matrix holds, and the outcome follows the order of the checks: the
  numerical failure exactly when the scalar is NaN or infinite, the convergence exactly
  when it is neither and below the tolerance.
\<close>

lemma sweeps_fp_checks:
  assumes "sweeps_fp ar f opt lib i st = Inr res"
    and "info_fp st = [] \<longrightarrow> overallObjective_fp st = fp_zero ar"
    and "info_fp st \<noteq> [] \<longrightarrow>
           overallObjective_fp st = snd (last (info_fp st))
           \<and> overallObjective_fp st = mean_objective_fp ar f (f_deref (heap_fp st) (iterate_fp st))
           \<and> \<not> fp_isnan ar (overallObjective_fp st) \<and> \<not> fp_isinf ar (overallObjective_fp st)
           \<and> \<not> fp_less ar (overallObjective_fp st) (tolerance_fp opt)"
  shows "(info_fp (final_fp res) = [] \<and> outcome_fp res = MAX_ITERATIONS_REACHED
            \<and> returned_fp res = fp_zero ar)
         \<or> (info_fp (final_fp res) \<noteq> []
            \<and> returned_fp res = snd (last (info_fp (final_fp res)))
            \<and> returned_fp res
                = mean_objective_fp ar f (f_deref (heap_fp (final_fp res)) (iterate_fp (final_fp res)))
            \<and> (outcome_fp res = NUMERICAL_FAILURE
                  \<longleftrightarrow> fp_isnan ar (returned_fp res) \<or> fp_isinf ar (returned_fp res))
            \<and> (outcome_fp res = CONVERGED
                  \<longleftrightarrow> \<not> fp_isnan ar (returned_fp res) \<and> \<not> fp_isinf ar (returned_fp res)
                      \<and> fp_less ar (returned_fp res) (tolerance_fp opt)))"
  using assms
proof (induction ar f opt lib i st rule: sweeps_fp.induct)
  case (1 ar f opt lib i st)
  show ?case
  proof (cases "i = maxIterations_fp opt")
    case True
    with "1.prems"(1)
    have "res = \<lparr>returned_fp = overallObjective_fp st, outcome_fp = MAX_ITERATIONS_REACHED,
                 final_fp = st\<rparr>"
      by (subst (asm) sweeps_fp.simps) auto
    then have "returned_fp res = overallObjective_fp st" "outcome_fp res = MAX_ITERATIONS_REACHED"
      "final_fp res = st"
      by simp_all
    note res = this
    show ?thesis
    proof (cases "info_fp st = []")
      case True
      with "1.prems"(2) res show ?thesis by simp
    next
      case False
      with "1.prems"(3)
      have "overallObjective_fp st = snd (last (info_fp st))"
        "overallObjective_fp st = mean_objective_fp ar f (f_deref (heap_fp st) (iterate_fp st))"
        "\<not> fp_isnan ar (overallObjective_fp st)" "\<not> fp_isinf ar (overallObjective_fp st)"
        "\<not> fp_less ar (overallObjective_fp st) (tolerance_fp opt)"
        by blast+
      then show ?thesis
        unfolding res using False by (intro disjI2) (simp del: last.simps)
    qed
  next
    case ne: False
    from "1.prems"(1) ne obtain st1
      where loop: "inner_loop_fp ar f opt lib [0..<NumFunctions_fp f] st = Inr st1"
      by (subst (asm) sweeps_fp.simps) (auto split: sum.splits)
    let ?st2 = "objective_fp ar f i st1"
    let ?v = "mean_objective_fp ar f (f_deref (heap_fp st1) (iterate_fp st1))"
    have v: "overallObjective_fp ?st2 = ?v" and info2: "info_fp ?st2 = info_fp st1 @ [(i, ?v)]"
      by (simp_all add: objective_fp_result)
    show ?thesis
    proof (cases "fp_isnan ar ?v \<or> fp_isinf ar ?v")
      case True
      with "1.prems"(1) ne loop
      have "res = \<lparr>returned_fp = ?v, outcome_fp = NUMERICAL_FAILURE, final_fp = ?st2\<rparr>"
        by (subst (asm) sweeps_fp.simps) (auto simp: Let_def v)
      then show ?thesis using True by (auto simp: info2)
    next
      case finite: False
      show ?thesis
      proof (cases "fp_less ar ?v (tolerance_fp opt)")
        case True
        with "1.prems"(1) ne loop finite
        have "res = \<lparr>returned_fp = ?v, outcome_fp = CONVERGED, final_fp = ?st2\<rparr>"
          by (subst (asm) sweeps_fp.simps) (auto simp: Let_def v)
        then show ?thesis using True finite by (auto simp: info2)
      next
        case False
        have c1: "\<not> (fp_isnan ar (overallObjective_fp ?st2) \<or> fp_isinf ar (overallObjective_fp ?st2))"
          using finite by (simp add: v)
        have c2: "\<not> fp_less ar (overallObjective_fp ?st2) (tolerance_fp opt)"
          using False by (simp add: v)
        from "1.prems"(1) ne loop c1 c2
        have next_sweep: "sweeps_fp ar f opt lib (i + 1) ?st2 = Inr res"
          by (subst (asm) sweeps_fp.simps) (auto simp: Let_def)
        have p1: "info_fp ?st2 = [] \<longrightarrow> overallObjective_fp ?st2 = fp_zero ar"
          by (simp add: info2)
        have p2: "info_fp ?st2 \<noteq> [] \<longrightarrow>
           overallObjective_fp ?st2 = snd (last (info_fp ?st2))
           \<and> overallObjective_fp ?st2
               = mean_objective_fp ar f (f_deref (heap_fp ?st2) (iterate_fp ?st2))
           \<and> \<not> fp_isnan ar (overallObjective_fp ?st2) \<and> \<not> fp_isinf ar (overallObjective_fp ?st2)
           \<and> \<not> fp_less ar (overallObjective_fp ?st2) (tolerance_fp opt)"
          using finite False by (simp add: info2 v)
        show ?thesis
          by (rule "1.IH" [OF ne loop refl c1 c2 next_sweep p1 p2])
      qed
    qed
  qed
qed

lemma Optimize_fp_checks:
  assumes "Optimize_fp ar f opt lib iterate0 = Inr res"
  shows "(info_fp (final_fp res) = [] \<and> outcome_fp res = MAX_ITERATIONS_REACHED
            \<and> returned_fp res = fp_zero ar)
         \<or> (info_fp (final_fp res) \<noteq> []
            \<and> returned_fp res = snd (last (info_fp (final_fp res)))
            \<and> returned_fp res
                = mean_objective_fp ar f (f_deref (heap_fp (final_fp res)) (iterate_fp (final_fp res)))
            \<and> (outcome_fp res = NUMERICAL_FAILURE
                  \<longleftrightarrow> fp_isnan ar (returned_fp res) \<or> fp_isinf ar (returned_fp res))
            \<and> (outcome_fp res = CONVERGED
                  \<longleftrightarrow> \<not> fp_isnan ar (returned_fp res) \<and> \<not> fp_isinf ar (returned_fp res)
                      \<and> fp_less ar (returned_fp res) (tolerance_fp opt)))"
proof -
  from assms obtain st where i: "init_fp ar f lib iterate0 = Inr st"
    and s: "sweeps_fp ar f opt lib 1 st = Inr res"
    by (auto simp: Optimize_fp_def split: sum.splits)
  from i have start: "info_fp st = []" "overallObjective_fp st = fp_zero ar"
    by (auto simp: init_fp_def Let_def split: sum.splits if_splits)
  show ?thesis
    by (rule sweeps_fp_checks [OF s]) (simp_all add: start)
qed

end
